theory Spec2Isabelle
  imports Main "HOL-Library.Sublist" "HOL-Library.Multiset"
begin

section \<open>JavaScript values used by the gateway\<close>

text \<open>
  Strings are lists of code units below 256. \<open>undefined\<close> and \<open>null\<close> are \<open>None\<close>.
  A string is truthy when it is present and non-empty.
\<close>

type_synonym js_string = "string option"

definition truthy :: "js_string \<Rightarrow> bool" where
  "truthy v = (case v of None \<Rightarrow> False | Some s \<Rightarrow> s \<noteq> [])"

text \<open>\<open>a || b\<close> on strings.\<close>

definition js_or :: "js_string \<Rightarrow> js_string \<Rightarrow> js_string" where
  "js_or a b = (if truthy a then a else b)"

text \<open>\<open>String.prototype.includes\<close>: the argument occurs as a contiguous run.\<close>

definition js_includes :: "string \<Rightarrow> string \<Rightarrow> bool" where
  "js_includes s t = sublist t s"

text \<open>
  White space removed by \<open>String.prototype.trim\<close>, within the code units below 256:
  tab, line feed, vertical tab, form feed, carriage return, space, no-break space.
\<close>

definition is_ws :: "char \<Rightarrow> bool" where
  "is_ws c = (c \<in> set [CHR 0x09, CHR 0x0A, CHR 0x0B, CHR 0x0C, CHR 0x0D, CHR 0x20, CHR 0xA0])"

definition trim :: "string \<Rightarrow> string" where
  "trim s = rev (dropWhile is_ws (rev (dropWhile is_ws s)))"

text \<open>
  \<open>String.prototype.split\<close> with a separator that matches single characters: the pieces
  between the separators, empty pieces kept, one piece for the empty string.
\<close>

fun split_on :: "(char \<Rightarrow> bool) \<Rightarrow> string \<Rightarrow> string list" where
  "split_on sep [] = [[]]"
| "split_on sep (c # cs) =
     (if sep c then [] # split_on sep cs
      else (case split_on sep cs of
              [] \<Rightarrow> [[c]]
            | p # ps \<Rightarrow> (c # p) # ps))"

text \<open>
  A thrown object: its \<open>status\<close> and \<open>message\<close> properties, each possibly absent.
  \<open>new Error(m)\<close> has the message \<open>m\<close> and no status.
\<close>

record js_error =
  status :: "int option"
  message :: "string option"

definition Error :: "string \<Rightarrow> js_error" where
  "Error m = \<lparr>status = None, message = Some m\<rparr>"

text \<open>What a \<open>throw\<close> carries: an object, or \<open>undefined\<close> (\<open>None\<close>).\<close>

type_synonym thrown = "js_error option"

section \<open>Key pools (geminiService.ts)\<close>

datatype ModelProvider = Gemini | OpenRouter

definition provider_name :: "ModelProvider \<Rightarrow> string" where
  "provider_name p = (case p of Gemini \<Rightarrow> ''gemini'' | OpenRouter \<Rightarrow> ''openrouter'')"

text \<open>
  The configuration origins read by the key pool: the local storage entries (read only
  when \<open>window\<close> exists; \<open>getItem\<close> gives \<open>null\<close> for a missing entry) and the environment.
\<close>

record config =
  has_window :: bool
  local_gemini :: js_string
  vite_gemini :: js_string
  node_api_key :: js_string
  node_gemini_key :: js_string
  local_openrouter :: js_string
  vite_openrouter :: js_string
  local_groq :: js_string
  vite_groq :: js_string

definition getAllKeys :: "js_string \<Rightarrow> string list" where
  "getAllKeys keyString =
     (case keyString of
        None \<Rightarrow> []
      | Some s \<Rightarrow>
          if s = [] then []
          else filter (\<lambda>k. length k > 0)
                 (map trim (split_on (\<lambda>c. c = CHR '','' \<or> c = CHR 0x0A) s)))"

definition getGeminiKeys :: "config \<Rightarrow> string list" where
  "getGeminiKeys cfg =
     (let keyString = (if has_window cfg then js_or (local_gemini cfg) None else None);
          keyString' =
            (if \<not> truthy keyString
             then (let viteKey = vite_gemini cfg;
                       nodeKey = js_or (node_api_key cfg) (node_gemini_key cfg)
                   in js_or viteKey nodeKey)
             else keyString)
      in getAllKeys keyString')"

definition getOpenRouterKeys :: "config \<Rightarrow> string list" where
  "getOpenRouterKeys cfg =
     (let keyString = (if has_window cfg then js_or (local_openrouter cfg) None else None);
          keyString' = (if \<not> truthy keyString then vite_openrouter cfg else keyString)
      in getAllKeys keyString')"

section \<open>The observable system state\<close>

text \<open>
  \<open>world\<close> is everything the supplied operations act on (the network and the
  providers behind it). \<open>entropy\<close> is the sequence of values behind \<open>Math.random\<close> and
  \<open>draws\<close> counts how many were consumed. \<open>log\<close> records, in order: each invocation of
  an operation with a key by withProviderRetry, with the error it threw (\<open>None\<close> when it
  returned); each delay in milliseconds; each Groq request with its model, its credential
  and the error it threw; each console message the gateway writes outside the operations
  it retries (what an operation itself prints belongs to the operation).
\<close>

datatype event =
    Invoke ModelProvider string "js_error option"
  | Delay nat
  | GroqRequest string string "js_error option"
  | Console string

record 'w sys =
  world :: 'w
  entropy :: "nat \<Rightarrow> nat"
  draws :: nat
  log :: "event list"

definition emit :: "event \<Rightarrow> 'w sys \<Rightarrow> 'w sys" where
  "emit e st = st\<lparr>log := log st @ [e]\<rparr>"

text \<open>What the log shows: the keys of the invocations made for a provider, the errors
  those invocations threw, the credentials of the Groq requests, the delays.\<close>

fun keys_invoked :: "ModelProvider \<Rightarrow> event list \<Rightarrow> string list" where
  "keys_invoked p [] = []"
| "keys_invoked p (Invoke q k r # es) = (if q = p then k # keys_invoked p es else keys_invoked p es)"
| "keys_invoked p (e # es) = keys_invoked p es"

fun errors_seen :: "ModelProvider \<Rightarrow> event list \<Rightarrow> js_error list" where
  "errors_seen p [] = []"
| "errors_seen p (Invoke q k (Some err) # es) =
     (if q = p then err # errors_seen p es else errors_seen p es)"
| "errors_seen p (e # es) = errors_seen p es"

fun groq_credentials :: "event list \<Rightarrow> string list" where
  "groq_credentials [] = []"
| "groq_credentials (GroqRequest m k r # es) = k # groq_credentials es"
| "groq_credentials (e # es) = groq_credentials es"

fun delays :: "event list \<Rightarrow> nat list" where
  "delays [] = []"
| "delays (Delay ms # es) = ms # delays es"
| "delays (e # es) = delays es"

text \<open>
  The shape of the events one key leaves behind when the operation may be tried
  \<open>budget\<close> times on it, and of the events a whole pool leaves behind: how often each key
  occurs, which delays occur, and that nothing else is recorded.
\<close>

definition retry_shape :: "ModelProvider \<Rightarrow> string \<Rightarrow> nat \<Rightarrow> nat \<Rightarrow> event list \<Rightarrow> bool" where
  "retry_shape p k n budget evs \<longleftrightarrow>
     (\<exists>m. keys_invoked p evs = replicate m k \<and> m \<le> budget \<and> (1 < n \<longrightarrow> m \<le> 1))
     \<and> set (delays evs) \<subseteq> {500} \<and> (1 < n \<longrightarrow> delays evs = [])
     \<and> (\<forall>q. q \<noteq> p \<longrightarrow> keys_invoked q evs = [] \<and> errors_seen q evs = [])
     \<and> groq_credentials evs = []"

definition pool_shape :: "ModelProvider \<Rightarrow> nat \<Rightarrow> nat \<Rightarrow> string list \<Rightarrow> event list \<Rightarrow> bool" where
  "pool_shape p n maxR ks evs \<longleftrightarrow>
     (\<forall>k. count_list (keys_invoked p evs) k \<le> maxR * count_list ks k)
     \<and> set (delays evs) \<subseteq> {500}
     \<and> (1 < n \<longrightarrow> delays evs = [] \<and> (\<forall>k. count_list (keys_invoked p evs) k \<le> count_list ks k))
     \<and> (\<forall>q. q \<noteq> p \<longrightarrow> keys_invoked q evs = [] \<and> errors_seen q evs = [])
     \<and> groq_credentials evs = []"

section \<open>shuffleArray\<close>

text \<open>
  The loop runs \<open>i\<close> from \<open>length - 1\<close> down to \<open>1\<close>. \<open>Math.floor(Math.random() * (i + 1))\<close>
  is an integer from \<open>0\<close> to \<open>i\<close>: the next entropy value reduced modulo \<open>i + 1\<close>.
\<close>

fun shuffle_loop :: "(nat \<Rightarrow> nat) \<Rightarrow> nat \<Rightarrow> nat \<Rightarrow> 'a list \<Rightarrow> 'a list \<times> nat" where
  "shuffle_loop rnd d 0 shuffled = (shuffled, d)"
| "shuffle_loop rnd d (Suc i') shuffled =
     (let i = Suc i';
          j = rnd d mod (i + 1)
      in shuffle_loop rnd (Suc d) i' (shuffled[i := shuffled ! j, j := shuffled ! i]))"

definition shuffleArray :: "(nat \<Rightarrow> nat) \<Rightarrow> nat \<Rightarrow> 'a list \<Rightarrow> 'a list \<times> nat" where
  "shuffleArray rnd d array = shuffle_loop rnd d (length array - 1) array"

section \<open>withProviderRetry\<close>

definition isQuotaError :: "js_error \<Rightarrow> bool" where
  "isQuotaError error =
     ((case message error of None \<Rightarrow> False | Some m \<Rightarrow> js_includes m ''429'')
      \<or> status error = Some 429
      \<or> (case message error of None \<Rightarrow> False | Some m \<Rightarrow> js_includes m ''RESOURCE_EXHAUSTED''))"

text \<open>
  The inner loop over the attempts \<open>i\<close> on one key. \<open>n\<close> is \<open>shuffledKeys.length\<close>.
  The result holds the value returned (\<open>None\<close> when the loop was left for the next key)
  and the variable \<open>lastError\<close>.
\<close>

function retry_loop ::
  "(string \<Rightarrow> 'w \<Rightarrow> (js_error + 'a) \<times> 'w) \<Rightarrow> ModelProvider \<Rightarrow> string \<Rightarrow> nat \<Rightarrow> nat \<Rightarrow> nat
     \<Rightarrow> thrown \<Rightarrow> 'w sys \<Rightarrow> 'a option \<times> thrown \<times> 'w sys" where
  "retry_loop fn provider apiKey n maxRetriesPerKey i lastError st =
     (if i < maxRetriesPerKey then
        (case fn apiKey (world st) of
           (Inr v, w') \<Rightarrow>
             (Some v, lastError, emit (Invoke provider apiKey None) (st\<lparr>world := w'\<rparr>))
         | (Inl error, w') \<Rightarrow>
             (let st' = emit (Invoke provider apiKey (Some error)) (st\<lparr>world := w'\<rparr>)
              in if isQuotaError error \<and> n > 1 then (None, Some error, st')
                 else if isQuotaError error \<and> i < maxRetriesPerKey - 1 then
                   retry_loop fn provider apiKey n maxRetriesPerKey (i + 1) (Some error)
                     (emit (Delay 500) st')
                 else (None, Some error, st')))
      else (None, lastError, st))"
  by pat_completeness auto
termination
  by (relation "measure (\<lambda>(fn, provider, apiKey, n, maxRetriesPerKey, i, lastError, st).
        maxRetriesPerKey - i)") auto

declare retry_loop.simps [simp del]

text \<open>The outer loop over \<open>shuffledKeys\<close>, ending in \<open>throw lastError\<close>.\<close>

fun key_loop ::
  "(string \<Rightarrow> 'w \<Rightarrow> (js_error + 'a) \<times> 'w) \<Rightarrow> ModelProvider \<Rightarrow> nat \<Rightarrow> nat \<Rightarrow> string list
     \<Rightarrow> thrown \<Rightarrow> 'w sys \<Rightarrow> (thrown + 'a) \<times> 'w sys" where
  "key_loop fn provider n maxRetriesPerKey [] lastError st = (Inl lastError, st)"
| "key_loop fn provider n maxRetriesPerKey (apiKey # rest) lastError st =
     (case retry_loop fn provider apiKey n maxRetriesPerKey 0 lastError st of
        (Some v, _, st') \<Rightarrow> (Inr v, st')
      | (None, lastError', st') \<Rightarrow> key_loop fn provider n maxRetriesPerKey rest lastError' st')"

definition provider_keys :: "config \<Rightarrow> ModelProvider \<Rightarrow> string list" where
  "provider_keys cfg provider =
     (if provider = Gemini then getGeminiKeys cfg else getOpenRouterKeys cfg)"

definition withProviderRetry ::
  "config \<Rightarrow> ModelProvider \<Rightarrow> (string \<Rightarrow> 'w \<Rightarrow> (js_error + 'a) \<times> 'w) \<Rightarrow> nat \<Rightarrow> 'w sys
     \<Rightarrow> (thrown + 'a) \<times> 'w sys" where
  "withProviderRetry cfg provider fn maxRetriesPerKey st =
     (let keys = provider_keys cfg provider
      in if length keys = 0
         then (Inl (Some (Error (''No API keys available for provider: '' @ provider_name provider))), st)
         else (let sh = shuffleArray (entropy st) (draws st) keys;
                   shuffledKeys = fst sh
               in key_loop fn provider (length shuffledKeys) maxRetriesPerKey shuffledKeys None
                    (st\<lparr>draws := snd sh\<rparr>)))"

section \<open>The provider calls\<close>

text \<open>
  The requests themselves (prompt text, files, HTTP) are parameters. \<open>scan\<close> is a vision
  request with its response parsed as JSON, \<open>chat\<close> a text request giving the text of
  the response, which may be absent; each is given the endpoint, the model and the
  credential, acts on the world, and throws or returns.
\<close>

datatype endpoint = GeminiAPI | GroqAPI | OpenRouterAPI

type_synonym ('w, 'a) scan = "endpoint \<Rightarrow> string \<Rightarrow> string \<Rightarrow> 'w \<Rightarrow> (js_error + 'a) \<times> 'w"

type_synonym 'w chat = "endpoint \<Rightarrow> string \<Rightarrow> string \<Rightarrow> 'w \<Rightarrow> (js_error + js_string) \<times> 'w"

text \<open>\<open>e.message\<close> inside a template string: an absent message prints as "undefined";
  reading it from \<open>undefined\<close> throws a TypeError.\<close>

definition error_text :: "js_error \<Rightarrow> string" where
  "error_text x = (case message x of None \<Rightarrow> ''undefined'' | Some m \<Rightarrow> m)"

definition message_of :: "thrown \<Rightarrow> js_error + string" where
  "message_of e =
     (case e of
        None \<Rightarrow> Inl (Error (''Cannot read properties of undefined (reading ''
                             @ [CHR 0x27] @ ''message'' @ [CHR 0x27] @ '')''))
      | Some x \<Rightarrow> Inr (error_text x))"

section \<open>analyzeExamPaper and its four layers\<close>

definition getGroqApiKey :: "config \<Rightarrow> js_string" where
  "getGroqApiKey cfg =
     (if has_window cfg \<and> truthy (js_or (local_groq cfg) None)
      then js_or (local_groq cfg) None
      else vite_groq cfg)"

definition callGroq :: "('w, 'a) scan \<Rightarrow> string \<Rightarrow> string \<Rightarrow> 'w sys \<Rightarrow> (js_error + 'a) \<times> 'w sys" where
  "callGroq scan apiKey model st =
     (case scan GroqAPI model apiKey (world st) of
        (Inr v, w') \<Rightarrow> (Inr v, emit (GroqRequest model apiKey None) (st\<lparr>world := w'\<rparr>))
      | (Inl err, w') \<Rightarrow> (Inl err, emit (GroqRequest model apiKey (Some err)) (st\<lparr>world := w'\<rparr>)))"

definition analyzeWithGroq :: "('w, 'a) scan \<Rightarrow> config \<Rightarrow> 'w sys \<Rightarrow> (thrown + 'a) \<times> 'w sys" where
  "analyzeWithGroq scan cfg st =
     (case getGroqApiKey cfg of
        None \<Rightarrow> (Inl (Some (Error ''No Groq API key available'')), st)
      | Some apiKey \<Rightarrow>
          if apiKey = [] then (Inl (Some (Error ''No Groq API key available'')), st)
          else (case callGroq scan apiKey ''meta-llama/llama-4-maverick-17b-128e-instruct'' st of
                  (Inr v, st1) \<Rightarrow> (Inr v, st1)
                | (Inl e, st1) \<Rightarrow>
                    (case callGroq scan apiKey ''llama-3.2-90b-vision-preview''
                            (emit (Console ''Groq Llama 4 failed, falling back to Llama 3.2 Vision...'') st1) of
                       (Inr v, st2) \<Rightarrow> (Inr v, st2)
                     | (Inl e', st2) \<Rightarrow> (Inl (Some e'), st2))))"

definition analyzeWithOpenRouter :: "('w, 'a) scan \<Rightarrow> config \<Rightarrow> 'w sys \<Rightarrow> (thrown + 'a) \<times> 'w sys" where
  "analyzeWithOpenRouter scan cfg st =
     withProviderRetry cfg OpenRouter (scan OpenRouterAPI ''google/gemini-flash-1.5'') 1 st"

text \<open>Layer 4 with its catch block, then layers 3 and 2 each followed by the rest of the
  chain, then the whole function.\<close>

definition layer4 :: "('w, 'a) scan \<Rightarrow> config \<Rightarrow> 'w sys \<Rightarrow> (thrown + 'a) \<times> 'w sys" where
  "layer4 scan cfg st =
     (case analyzeWithOpenRouter scan cfg (emit (Console ''Attempting scan with Layer 4: OpenRouter'') st) of
        (Inr v, st') \<Rightarrow> (Inr v, st')
      | (Inl e, st') \<Rightarrow>
          (let st'' = emit (Console ''All layers failed.'') st'
           in case message_of e of
                Inl t \<Rightarrow> (Inl (Some t), st'')
              | Inr m \<Rightarrow>
                  (Inl (Some (Error (''Scan failed after 4 types of fallback. Last error: '' @ m))), st'')))"

definition layer3 :: "('w, 'a) scan \<Rightarrow> config \<Rightarrow> 'w sys \<Rightarrow> (thrown + 'a) \<times> 'w sys" where
  "layer3 scan cfg st =
     (case analyzeWithGroq scan cfg (emit (Console ''Attempting scan with Layer 3: Groq Vision'') st) of
        (Inr v, st') \<Rightarrow> (Inr v, st')
      | (Inl e, st') \<Rightarrow>
          (case message_of e of
             Inl t \<Rightarrow> (Inl (Some t), st')
           | Inr m \<Rightarrow>
               layer4 scan cfg
                 (emit (Console (''Layer 3 (Groq) failed: '' @ m @ ''. Trying Layer 4 (OpenRouter)...'')) st')))"

definition layer2 :: "('w, 'a) scan \<Rightarrow> config \<Rightarrow> 'w sys \<Rightarrow> (thrown + 'a) \<times> 'w sys" where
  "layer2 scan cfg st =
     (case withProviderRetry cfg Gemini (scan GeminiAPI ''gemini-2.0-flash-exp'') 1 st of
        (Inr v, st') \<Rightarrow> (Inr v, st')
      | (Inl e, st') \<Rightarrow>
          (case message_of e of
             Inl t \<Rightarrow> (Inl (Some t), st')
           | Inr m \<Rightarrow>
               layer3 scan cfg
                 (emit (Console (''Layer 2 (Gemini 2.0) failed: '' @ m @ ''. Trying Layer 3 (Groq)...'')) st')))"

definition analyzeExamPaper ::
  "('w, 'a) scan \<Rightarrow> config \<Rightarrow> string \<Rightarrow> 'w sys \<Rightarrow> (thrown + 'a) \<times> 'w sys" where
  "analyzeExamPaper scan cfg modelName st =
     (case withProviderRetry cfg Gemini (scan GeminiAPI modelName) 1 st of
        (Inr v, st') \<Rightarrow> (Inr v, st')
      | (Inl e, st') \<Rightarrow>
          (case message_of e of
             Inl t \<Rightarrow> (Inl (Some t), st')
           | Inr m \<Rightarrow>
               layer2 scan cfg
                 (emit (Console (''Layer 1 (Gemini 3) failed: '' @ m @ ''. Trying Layer 2...'')) st')))"

text \<open>
  What a failed layer leaves in the log. A layer run through withProviderRetry has tried
  every key of its provider's pool, each at most once for each time it occurs there.
  The Groq layer has invoked no key of a pool and has sent at most two requests, each
  with the one configured Groq credential as it stands.
\<close>

definition tried_all :: "ModelProvider \<Rightarrow> config \<Rightarrow> event list \<Rightarrow> bool" where
  "tried_all p cfg evs \<longleftrightarrow>
     pool_shape p (length (provider_keys cfg p)) 1 (provider_keys cfg p) evs
     \<and> set (provider_keys cfg p) \<subseteq> set (keys_invoked p evs)
     \<and> length (errors_seen p evs) = length (keys_invoked p evs)"

definition groq_layer :: "config \<Rightarrow> event list \<Rightarrow> bool" where
  "groq_layer cfg evs \<longleftrightarrow>
     (\<forall>q. keys_invoked q evs = [] \<and> errors_seen q evs = [])
     \<and> length (groq_credentials evs) \<le> 2
     \<and> set (groq_credentials evs) \<subseteq> (case getGroqApiKey cfg of None \<Rightarrow> {} | Some k \<Rightarrow> {k})"

text \<open>The error withProviderRetry throws for a provider, read from the events of the
  run: the error about the empty pool, or the last error an invocation threw.\<close>

definition thrown_by_retry :: "ModelProvider \<Rightarrow> config \<Rightarrow> event list \<Rightarrow> js_error" where
  "thrown_by_retry p cfg evs =
     (if provider_keys cfg p = []
      then Error (''No API keys available for provider: '' @ provider_name p)
      else last (errors_seen p evs))"

text \<open>
  The claim that the Groq link rotates through all configured keys, in the words of
  the specification: the credentials of a configuration value are its entries between
  commas and newlines, and each of them is tried.
\<close>

definition spec_groq_link_rotates :: "config \<Rightarrow> event list \<Rightarrow> bool" where
  "spec_groq_link_rotates cfg evs \<longleftrightarrow>
     set (getAllKeys (getGroqApiKey cfg)) \<subseteq> set (groq_credentials evs)"

section \<open>refineAcademicAnswer\<close>

text \<open>
  The question enters through its \<open>suggestedAnswer\<close>; the prompt built from it goes into
  the request, which the \<open>chat\<close> parameter stands for. \<open>or_default\<close> is \<open>text || fallback\<close>
  where \<open>text\<close> may be absent; \<open>returning\<close> applies what the operation does to a
  response before it returns it.
\<close>

definition or_default :: "js_string \<Rightarrow> string \<Rightarrow> string" where
  "or_default t d = (case t of None \<Rightarrow> d | Some s \<Rightarrow> if s = [] then d else s)"

definition returning :: "('b \<Rightarrow> 'c) \<Rightarrow> (js_error + 'b) \<times> 'w \<Rightarrow> (js_error + 'c) \<times> 'w" where
  "returning f r = (case r of (Inl e, w) \<Rightarrow> (Inl e, w) | (Inr v, w) \<Rightarrow> (Inr (f v), w))"

definition callGemini :: "'w chat \<Rightarrow> string \<Rightarrow> string \<Rightarrow> string \<Rightarrow> 'w \<Rightarrow> (js_error + string) \<times> 'w" where
  "callGemini chat suggestedAnswer apiKey model w =
     returning (\<lambda>t. or_default t suggestedAnswer) (chat GeminiAPI model apiKey w)"

definition callOpenRouter :: "'w chat \<Rightarrow> string \<Rightarrow> string \<Rightarrow> string \<Rightarrow> 'w \<Rightarrow> (js_error + string) \<times> 'w" where
  "callOpenRouter chat suggestedAnswer apiKey model w =
     returning (\<lambda>t. or_default t suggestedAnswer) (chat OpenRouterAPI model apiKey w)"

text \<open>The second try block: Gemini, whose error is logged and thrown again.\<close>

definition refine_with_gemini ::
  "'w chat \<Rightarrow> config \<Rightarrow> string \<Rightarrow> string \<Rightarrow> ModelProvider \<Rightarrow> 'w sys \<Rightarrow> (thrown + string) \<times> 'w sys" where
  "refine_with_gemini chat cfg suggestedAnswer modelName provider st =
     (let geminiModel = (if provider = Gemini then modelName else ''gemini-2.0-flash-exp'')
      in case withProviderRetry cfg Gemini (\<lambda>key. callGemini chat suggestedAnswer key geminiModel) 1 st of
           (Inr v, st') \<Rightarrow> (Inr v, st')
         | (Inl error, st') \<Rightarrow> (Inl error, emit (Console ''All providers and keys failed'') st'))"

text \<open>The call inside the first try block: OpenRouter.\<close>

definition refine_with_openrouter ::
  "'w chat \<Rightarrow> config \<Rightarrow> string \<Rightarrow> string \<Rightarrow> ModelProvider \<Rightarrow> 'w sys \<Rightarrow> (thrown + string) \<times> 'w sys" where
  "refine_with_openrouter chat cfg suggestedAnswer modelName provider st =
     (let orModel = (if provider = OpenRouter then modelName else ''google/gemini-2.0-flash-001'')
      in withProviderRetry cfg OpenRouter (\<lambda>key. callOpenRouter chat suggestedAnswer key orModel) 1 st)"

definition refineAcademicAnswer ::
  "'w chat \<Rightarrow> config \<Rightarrow> string \<Rightarrow> string \<Rightarrow> ModelProvider \<Rightarrow> 'w sys \<Rightarrow> (thrown + string) \<times> 'w sys" where
  "refineAcademicAnswer chat cfg suggestedAnswer modelName provider st =
     (let orKeys = getOpenRouterKeys cfg
      in if length orKeys > 0 then
           (case refine_with_openrouter chat cfg suggestedAnswer modelName provider st of
              (Inr v, st') \<Rightarrow> (Inr v, st')
            | (Inl error, st') \<Rightarrow>
                refine_with_gemini chat cfg suggestedAnswer modelName provider
                  (emit (Console ''OpenRouter fallback failed, trying Gemini...'') st'))
         else refine_with_gemini chat cfg suggestedAnswer modelName provider st)"

section \<open>generateChatTitle\<close>

text \<open>
  The first user message and the prompt built from it go into the request only, which
  the \<open>chat\<close> parameter stands for. \<open>title_text\<close> is \<open>response.text?.trim() || "New Chat"\<close>.
\<close>

definition title_text :: "js_string \<Rightarrow> string" where
  "title_text t = or_default (map_option trim t) ''New Chat''"

text \<open>The call inside the try block.\<close>

definition title_attempt ::
  "'w chat \<Rightarrow> config \<Rightarrow> ModelProvider \<Rightarrow> 'w sys \<Rightarrow> (thrown + string) \<times> 'w sys" where
  "title_attempt chat cfg provider st =
     withProviderRetry cfg provider
       (\<lambda>apiKey w. returning title_text (chat GeminiAPI ''gemini-2.0-flash-exp'' apiKey w)) 1 st"

definition generateChatTitle ::
  "'w chat \<Rightarrow> config \<Rightarrow> (string \<times> string) list \<Rightarrow> ModelProvider \<Rightarrow> 'w sys
     \<Rightarrow> (thrown + string) \<times> 'w sys" where
  "generateChatTitle chat cfg messages provider st =
     (if length messages = 0 then (Inr ''New Chat'', st)
      else (case title_attempt chat cfg provider st of
              (Inr v, st') \<Rightarrow> (Inr v, st')
            | (Inl e, st') \<Rightarrow>
                (Inr ''New Chat'', emit (Console ''Title generation failed, using default'') st')))"

section \<open>ChatService (chatService.ts)\<close>

datatype ChatMode = Pro | Flash | Uncensored

definition mode_name :: "ChatMode \<Rightarrow> string" where
  "mode_name mode = (case mode of Pro \<Rightarrow> ''pro'' | Flash \<Rightarrow> ''flash'' | Uncensored \<Rightarrow> ''uncensored'')"

definition MODELS :: "ChatMode \<Rightarrow> string" where
  "MODELS mode =
     (case mode of
        Pro \<Rightarrow> ''openai/gpt-oss-120b''
      | Flash \<Rightarrow> ''moonshotai/kimi-k2-instruct''
      | Uncensored \<Rightarrow> ''cognitivecomputations/dolphin-mistral-24b-venice-edition:free'')"

definition OPENROUTER_FALLBACKS :: "(string \<times> string) list" where
  "OPENROUTER_FALLBACKS =
     [(''llama3-70b-8192'', ''meta-llama/llama-3.1-70b-instruct''),
      (''llama3-8b-8192'', ''meta-llama/llama-3.1-8b-instruct'')]"

text \<open>A client is its endpoint and its credential.\<close>

datatype client = GroqClient string | OpenRouterClient string

record ChatService =
  groqClient :: "client option"
  openRouterKeys :: "string list"
  currentOpenRouterIndex :: nat

text \<open>The constructor, from \<open>config.groqKey\<close> and \<open>config.openRouterKey\<close>.\<close>

definition new_ChatService :: "js_string \<Rightarrow> js_string \<Rightarrow> ChatService" where
  "new_ChatService groqKey openRouterKey =
     \<lparr>groqClient =
        (case groqKey of
           None \<Rightarrow> None
         | Some g \<Rightarrow> if g = [] then None else Some (GroqClient (trim g))),
      openRouterKeys =
        (case openRouterKey of
           None \<Rightarrow> []
         | Some s \<Rightarrow>
             if s = [] then []
             else filter (\<lambda>k. length k > 0) (map trim (split_on (\<lambda>c. c = CHR '','') s))),
      currentOpenRouterIndex = 0\<rparr>"

definition getOpenRouterClient :: "ChatService \<Rightarrow> client option" where
  "getOpenRouterClient svc =
     (if length (openRouterKeys svc) = 0 then None
      else Some (OpenRouterClient
             (openRouterKeys svc ! (currentOpenRouterIndex svc mod length (openRouterKeys svc)))))"

text \<open>Called only inside the loop over a non-empty key list.\<close>

definition rotateOpenRouterKey :: "ChatService \<Rightarrow> ChatService" where
  "rotateOpenRouterKey svc =
     svc\<lparr>currentOpenRouterIndex := (currentOpenRouterIndex svc + 1) mod length (openRouterKeys svc)\<rparr>"

text \<open>
  A chat turn in progress: the service, the network, the text fragments handed to the
  consumer so far, and the requests made so far, each with its client, its model and
  the error makeRequest threw for it (\<open>None\<close> when the stream completed). \<open>create\<close>
  stands for \<open>client.chat.completions.create\<close> and the iteration over its stream: the
  content of each chunk (possibly absent), and the error that ended the stream, if any.
\<close>

record 'w turn =
  service :: ChatService
  net :: 'w
  yielded :: "string list"
  opened :: "(client \<times> string \<times> js_error option) list"

type_synonym 'w create = "client \<Rightarrow> string \<Rightarrow> 'w \<Rightarrow> (js_string list \<times> js_error option) \<times> 'w"

text \<open>The fragments yielded for the chunks of a stream: the non-empty contents.\<close>

definition fragments :: "js_string list \<Rightarrow> string list" where
  "fragments chunks = concat (map (\<lambda>c. if truthy c then [or_default c []] else []) chunks)"

text \<open>What makeRequest throws when the stream ends with an error. The property
  \<open>validKey\<close> it sets on a 401 error is read nowhere and is left out.\<close>

definition rethrown :: "string \<Rightarrow> js_error \<Rightarrow> js_error" where
  "rethrown model error =
     (if status error = Some 404
      then Error (''Model '' @ [CHR 0x27] @ model @ [CHR 0x27]
                   @ '' not found on provider. Check availability.'')
      else error)"

definition makeRequest :: "'w create \<Rightarrow> client \<Rightarrow> string \<Rightarrow> 'w turn \<Rightarrow> (js_error + unit) \<times> 'w turn" where
  "makeRequest create cl model t =
     (case create cl model (net t) of
        ((chunks, ended), w') \<Rightarrow>
          (let t' = t\<lparr>net := w', yielded := yielded t @ fragments chunks\<rparr>
           in case ended of
                None \<Rightarrow> (Inr (), t'\<lparr>opened := opened t @ [(cl, model, None)]\<rparr>)
              | Some error \<Rightarrow>
                  (Inl (rethrown model error),
                   t'\<lparr>opened := opened t @ [(cl, model, Some (rethrown model error))]\<rparr>)))"

text \<open>The loop of streamChat over the OpenRouter keys, with \<open>throw lastError || ...\<close>
  after it.\<close>

function stream_loop :: "'w create \<Rightarrow> string \<Rightarrow> nat \<Rightarrow> js_error option \<Rightarrow> 'w turn
    \<Rightarrow> (js_error + unit) \<times> 'w turn" where
  "stream_loop create modelToUse i lastError t =
     (if i < length (openRouterKeys (service t)) then
        (case getOpenRouterClient (service t) of
           None \<Rightarrow>
             (Inl (case lastError of None \<Rightarrow> Error ''All provider keys failed.'' | Some e \<Rightarrow> e), t)
         | Some cl \<Rightarrow>
             (case makeRequest create cl modelToUse t of
                (Inr u, t') \<Rightarrow> (Inr (), t')
              | (Inl error, t') \<Rightarrow>
                  if status error = Some 401
                  then stream_loop create modelToUse (i + 1) (Some error)
                         (t'\<lparr>service := rotateOpenRouterKey (service t')\<rparr>)
                  else (Inl error, t')))
      else (Inl (case lastError of None \<Rightarrow> Error ''All provider keys failed.'' | Some e \<Rightarrow> e), t))"
  by pat_completeness auto
termination
  by (relation "measure (\<lambda>(create, modelToUse, i, lastError, t).
        length (openRouterKeys (service t)) - i)")
    (auto simp: makeRequest_def rotateOpenRouterKey_def Let_def
      split: prod.splits option.splits if_splits)

declare stream_loop.simps [simp del]

definition modelToUse :: "ChatMode \<Rightarrow> string" where
  "modelToUse mode =
     (let targetModel = MODELS mode;
          isGroqMode = (mode = Pro \<or> mode = Flash)
      in if isGroqMode then or_default (map_of OPENROUTER_FALLBACKS targetModel) targetModel
         else targetModel)"

definition streamChat :: "'w create \<Rightarrow> ChatMode \<Rightarrow> 'w turn \<Rightarrow> (js_error + unit) \<times> 'w turn" where
  "streamChat create mode t =
     (let targetModel = MODELS mode;
          isGroqMode = (mode = Pro \<or> mode = Flash)
      in case (if isGroqMode then groqClient (service t) else None) of
           Some cl \<Rightarrow> makeRequest create cl targetModel t
         | None \<Rightarrow>
             if length (openRouterKeys (service t)) = 0 then
               (if isGroqMode \<and> groqClient (service t) = None
                then (Inl (Error (''Mode '' @ [CHR 0x27] @ mode_name mode @ [CHR 0x27]
                        @ '' requires Groq API Key or OpenRouter fallback. Please check your Settings.'')), t)
                else (Inl (Error (''Mode '' @ [CHR 0x27] @ mode_name mode @ [CHR 0x27]
                        @ '' requires OpenRouter API Key. Please check your Settings.'')), t))
             else stream_loop create (modelToUse mode) 0 None t)"

text \<open>The requests a turn has added, and the client of the key \<open>j\<close> places after the
  cursor, around the end of the list.\<close>

definition new_requests :: "'w turn \<Rightarrow> 'w turn \<Rightarrow> (client \<times> string \<times> js_error option) list" where
  "new_requests t t' = drop (length (opened t)) (opened t')"

definition client_at :: "ChatService \<Rightarrow> nat \<Rightarrow> client" where
  "client_at svc j =
     OpenRouterClient (openRouterKeys svc ! ((currentOpenRouterIndex svc + j) mod length (openRouterKeys svc)))"

text \<open>What is thrown after the loop; the turns that take the OpenRouter path of
  streamChat: no Groq client is used and at least one OpenRouter key exists.\<close>

definition thrown_after_loop :: "js_error option \<Rightarrow> js_error" where
  "thrown_after_loop lastError = (case lastError of None \<Rightarrow> Error ''All provider keys failed.'' | Some e \<Rightarrow> e)"

definition openrouter_path :: "ChatMode \<Rightarrow> 'w turn \<Rightarrow> bool" where
  "openrouter_path mode t \<longleftrightarrow>
     (mode = Uncensored \<or> groqClient (service t) = None) \<and> openRouterKeys (service t) \<noteq> []"


text \<open>A recorded request that ended with an error of status 401, and how many of the
  recorded requests did: after each of them the loop calls rotateOpenRouterKey.\<close>

definition unauthorized :: "client \<times> string \<times> js_error option \<Rightarrow> bool" where
  "unauthorized r = (case snd (snd r) of None \<Rightarrow> False | Some e \<Rightarrow> status e = Some 401)"

definition rotations :: "(client \<times> string \<times> js_error option) list \<Rightarrow> nat" where
  "rotations rs = length (filter unauthorized rs)"


section \<open>startGeneration (App.tsx)\<close>

datatype AppState = IDLE | ANALYZING | REVIEWING | GENERATING | COMPLETED | ANALYZING_GENERAL

datatype part_type = TextPart | MathPart | DiagramPart | CodePart

record AnswerPart =
  p_type :: part_type
  p_content :: string
  p_imageUrl :: "string option"

record RefinedQuestion =
  r_label :: string
  r_text :: string
  r_marks :: int
  r_refinedAnswer :: string
  r_parts :: "AnswerPart list"
  r_isJustified :: "bool option"

record ExamQuestion =
  q_id :: string
  q_label :: string
  q_text :: string
  q_marks :: int
  q_suggestedAnswer :: string
  q_diagramRequired :: bool
  q_diagramDescription :: "string option"
  q_enabled :: bool
  q_isJustified :: "bool option"

record ExamAnalysis =
  examTitle :: string
  totalMarks :: int
  questions :: "ExamQuestion list"

record app =
  appState :: AppState
  app_error :: js_string
  totalGenSteps :: nat
  currentGenStep :: nat
  refinedQuestions :: "RefinedQuestion list"

text \<open>The result that stands for a question whose processing threw.\<close>

definition failure_placeholder :: "ExamQuestion \<Rightarrow> RefinedQuestion" where
  \<open>failure_placeholder q =
     \<lparr>r_label = q_label q, r_text = q_text q, r_marks = q_marks q,
      r_refinedAnswer = ''<div class="p-4 bg-red-50 border border-red-200 rounded-xl text-red-600 font-bold">Generation failed for this specific question after all retry attempts.</div>'',
      r_parts = [\<lparr>p_type = TextPart,
                  p_content = ''<b style="color:#ef4444">Generation failed for this question.</b>'',
                  p_imageUrl = None\<rparr>],
      r_isJustified = q_isJustified q\<rparr>\<close>

text \<open>
  processQuestion is a parameter. The invocations of a wave run concurrently and share
  the network, so the outcome of each is taken as given for its position among the
  enabled questions (the first argument) and its question: a refined question, or a
  thrown value. \<open>item_result\<close> is the callback passed to \<open>batch.map\<close> with its try and
  catch, \<open>item_failed\<close> tells whether it counted a failure.
\<close>

type_synonym processor = "nat \<Rightarrow> ExamQuestion \<Rightarrow> thrown + RefinedQuestion"

definition item_result :: "processor \<Rightarrow> nat \<times> ExamQuestion \<Rightarrow> RefinedQuestion" where
  "item_result processQuestion jq =
     (case processQuestion (fst jq) (snd jq) of
        Inr r \<Rightarrow> r
      | Inl err \<Rightarrow> failure_placeholder (snd jq))"

definition item_failed :: "processor \<Rightarrow> nat \<times> ExamQuestion \<Rightarrow> bool" where
  "item_failed processQuestion jq = isl (processQuestion (fst jq) (snd jq))"

text \<open>
  The loop over the waves of \<open>batchSize = 3\<close>: \<open>i\<close> is the position of the first question
  of the wave, \<open>batch\<close> the questions of the wave with their positions, and
  \<open>Promise.all\<close> gives their results in the order of the batch.
\<close>

function generation_loop ::
  "processor \<Rightarrow> ExamQuestion list \<Rightarrow> nat \<Rightarrow> RefinedQuestion list \<Rightarrow> nat \<Rightarrow> nat
     \<Rightarrow> RefinedQuestion list \<times> nat \<times> nat" where
  "generation_loop processQuestion enabledQuestions i results failureCount step =
     (if i < length enabledQuestions then
        (let batch = enumerate i (take 3 (drop i enabledQuestions));
             batchResults = map (item_result processQuestion) batch
         in generation_loop processQuestion enabledQuestions (i + 3)
              (results @ batchResults)
              (failureCount + length (filter (item_failed processQuestion) batch))
              (min (step + length batch) (length enabledQuestions)))
      else (results, failureCount, step))"
  by pat_completeness auto
termination
  by (relation "measure (\<lambda>(processQuestion, enabledQuestions, i, results, failureCount, step).
        length enabledQuestions - i)") auto

declare generation_loop.simps [simp del]

text \<open>A number in a template string: its decimal digits.\<close>

fun show_nat :: "nat \<Rightarrow> string" where
  "show_nat n =
     (if n < 10 then [''0123456789'' ! n]
      else show_nat (n div 10) @ [''0123456789'' ! (n mod 10)])"

declare show_nat.simps [simp del]

definition startGeneration :: "processor \<Rightarrow> ExamAnalysis option \<Rightarrow> app \<Rightarrow> app" where
  "startGeneration processQuestion analysis a =
     (case analysis of
        None \<Rightarrow> a
      | Some an \<Rightarrow>
          (let enabledQuestions = filter q_enabled (questions an);
               a1 = a\<lparr>appState := GENERATING, app_error := None,
                      totalGenSteps := length enabledQuestions, currentGenStep := 0\<rparr>
           in case generation_loop processQuestion enabledQuestions 0 [] 0 (currentGenStep a1) of
                (results, failureCount, step) \<Rightarrow>
                  a1\<lparr>currentGenStep := step, refinedQuestions := results, appState := COMPLETED,
                     app_error :=
                       (if failureCount > 0
                        then Some (show_nat failureCount
                               @ '' question(s) failed to generate, but the rest are available below.'')
                        else None)\<rparr>))"


section \<open>Operations by outcome\<close>

text \<open>
  An operation that, given this key, returns whatever the world is; one that throws
  whatever the world is; one that throws a quota error whatever the world is. The
  events a run has added to the log.
\<close>

definition always_returns :: "(string \<Rightarrow> 'w \<Rightarrow> (js_error + 'a) \<times> 'w) \<Rightarrow> string \<Rightarrow> bool" where
  "always_returns fn k \<longleftrightarrow> (\<forall>w. \<not> isl (fst (fn k w)))"

definition always_throws :: "(string \<Rightarrow> 'w \<Rightarrow> (js_error + 'a) \<times> 'w) \<Rightarrow> string \<Rightarrow> bool" where
  "always_throws fn k \<longleftrightarrow> (\<forall>w. isl (fst (fn k w)))"


definition new_events :: "'w sys \<Rightarrow> 'w sys \<Rightarrow> event list" where
  "new_events st st' = drop (length (log st)) (log st')"


section \<open>The chain of analyzeExamPaper, layer by layer\<close>

text \<open>
  What a run of the chain from a given layer on consists of, with \<open>r\<close> and \<open>st'\<close> its
  result and final state. A layer that returns ends the chain with its value. The chain
  advances past layers 1, 2 and 4 only when withProviderRetry has thrown, having tried
  every key of the provider's pool; the events of layer 3 are those of the Groq layer
  whether it returns or throws; after layer 4 has thrown the chain throws.
\<close>

definition from_layer4 :: "('w, 'a) scan \<Rightarrow> config \<Rightarrow> 'w sys \<Rightarrow> thrown + 'a \<Rightarrow> 'w sys \<Rightarrow> bool" where
  "from_layer4 scan cfg s r st' \<longleftrightarrow>
     (let s' = emit (Console ''Attempting scan with Layer 4: OpenRouter'') s
      in \<exists>y s4. analyzeWithOpenRouter scan cfg s' = (y, s4)
           \<and> (\<not> isl y \<and> r = y \<and> st' = s4
               \<or> isl y \<and> isl r \<and> tried_all OpenRouter cfg (new_events s' s4)
                 \<and> st' = emit (Console ''All layers failed.'') s4))"

definition from_layer3 :: "('w, 'a) scan \<Rightarrow> config \<Rightarrow> 'w sys \<Rightarrow> thrown + 'a \<Rightarrow> 'w sys \<Rightarrow> bool" where
  "from_layer3 scan cfg s r st' \<longleftrightarrow>
     (let s' = emit (Console ''Attempting scan with Layer 3: Groq Vision'') s
      in \<exists>x s3. analyzeWithGroq scan cfg s' = (x, s3) \<and> groq_layer cfg (new_events s' s3)
           \<and> (\<not> isl x \<and> r = x \<and> st' = s3
               \<or> isl x \<and> (\<exists>c3. from_layer4 scan cfg (emit (Console c3) s3) r st')))"

definition from_layer2 :: "('w, 'a) scan \<Rightarrow> config \<Rightarrow> 'w sys \<Rightarrow> thrown + 'a \<Rightarrow> 'w sys \<Rightarrow> bool" where
  "from_layer2 scan cfg s r st' \<longleftrightarrow>
     (\<exists>y s2. withProviderRetry cfg Gemini (scan GeminiAPI ''gemini-2.0-flash-exp'') 1 s = (y, s2)
        \<and> (\<not> isl y \<and> r = y \<and> st' = s2
            \<or> isl y \<and> tried_all Gemini cfg (new_events s s2)
              \<and> (\<exists>c2. from_layer3 scan cfg (emit (Console c2) s2) r st')))"

definition from_layer1 :: "('w, 'a) scan \<Rightarrow> config \<Rightarrow> string \<Rightarrow> 'w sys \<Rightarrow> thrown + 'a \<Rightarrow> 'w sys \<Rightarrow> bool" where
  "from_layer1 scan cfg modelName s r st' \<longleftrightarrow>
     (\<exists>y s1. withProviderRetry cfg Gemini (scan GeminiAPI modelName) 1 s = (y, s1)
        \<and> (\<not> isl y \<and> r = y \<and> st' = s1
            \<or> isl y \<and> tried_all Gemini cfg (new_events s s1)
              \<and> (\<exists>c1. from_layer2 scan cfg (emit (Console c1) s1) r st')))"


section \<open>Example inputs\<close>

text \<open>A browser configuration with the three local storage entries given.\<close>

definition browser_config :: "js_string \<Rightarrow> js_string \<Rightarrow> js_string \<Rightarrow> config" where
  "browser_config g r q =
     \<lparr>has_window = True, local_gemini = g, vite_gemini = None, node_api_key = None,
      node_gemini_key = None, local_openrouter = r, vite_openrouter = None,
      local_groq = q, vite_groq = None\<rparr>"

text \<open>A start state over a world that counts the requests made so far.\<close>

definition start :: "nat sys" where
  "start = \<lparr>world = 0, entropy = (\<lambda>n. n), draws = 0, log = []\<rparr>"

text \<open>An operation that succeeds with the key it was given.\<close>

definition echo_key :: "string \<Rightarrow> nat \<Rightarrow> (js_error + string) \<times> nat" where
  "echo_key k w = (Inr k, Suc w)"



definition two_keys :: config where
  "two_keys = browser_config (Some ''bad, good'') None None"

definition fail_with_key :: "string \<Rightarrow> nat \<Rightarrow> (js_error + string) \<times> nat" where
  "fail_with_key k w = (Inl (Error (''rejected '' @ k)), Suc w)"


text \<open>A scan that every endpoint rejects, with an error naming the credential; a
  configuration with one key for each provider and the state its failed analysis ends
  in; a configuration whose Groq value lists two keys.\<close>

definition reject_all :: "(nat, string) scan" where
  "reject_all ep model key w = (Inl (Error (''rejected '' @ key)), Suc w)"

definition three_keys :: config where
  "three_keys = browser_config (Some ''g'') (Some ''r'') (Some ''q'')"

definition groq_pair :: config where
  "groq_pair = browser_config None None (Some ''g1,g2'')"

definition three_keys_failed :: "nat sys" where
  "three_keys_failed =
     \<lparr>world = 5, entropy = (\<lambda>n. n), draws = 0,
      log = [Invoke Gemini ''g'' (Some (Error ''rejected g'')),
             Console ''Layer 1 (Gemini 3) failed: rejected g. Trying Layer 2...'',
             Invoke Gemini ''g'' (Some (Error ''rejected g'')),
             Console ''Layer 2 (Gemini 2.0) failed: rejected g. Trying Layer 3 (Groq)...'',
             Console ''Attempting scan with Layer 3: Groq Vision'',
             GroqRequest ''meta-llama/llama-4-maverick-17b-128e-instruct'' ''q'' (Some (Error ''rejected q'')),
             Console ''Groq Llama 4 failed, falling back to Llama 3.2 Vision...'',
             GroqRequest ''llama-3.2-90b-vision-preview'' ''q'' (Some (Error ''rejected q'')),
             Console ''Layer 3 (Groq) failed: rejected q. Trying Layer 4 (OpenRouter)...'',
             Console ''Attempting scan with Layer 4: OpenRouter'',
             Invoke OpenRouter ''r'' (Some (Error ''rejected r'')),
             Console ''All layers failed.'']\<rparr>"


text \<open>A chat backend that answers on one endpoint and rejects on the others; one that
  always answers the given text; one that always rejects.\<close>

definition answer_on :: "endpoint \<Rightarrow> nat chat" where
  "answer_on good ep model key w =
     (if ep = good then (Inr (Some (''answer from '' @ model)), Suc w)
      else (Inl (Error (''rejected '' @ key)), Suc w))"

definition say :: "js_string \<Rightarrow> nat chat" where
  "say t ep model key w = (Inr t, Suc w)"

definition reject_chat :: "nat chat" where
  "reject_chat ep model key w = (Inl (Error (''rejected '' @ key)), Suc w)"


text \<open>A chat backend that answers "  Trip plan " to the key "good" and rejects every
  other key; a start state whose random values leave a pool of two keys in its order.\<close>

definition title_if_good :: "nat chat" where
  "title_if_good ep model key w =
     (if key = ''good'' then (Inr (Some ''  Trip plan ''), Suc w)
      else (Inl (Error (''rejected '' @ key)), Suc w))"

definition start_in_order :: "nat sys" where
  "start_in_order = \<lparr>world = 0, entropy = (\<lambda>n. 1), draws = 0, log = []\<rparr>"


text \<open>An error with a status; the key of a client; a backend that streams "Hel", an
  empty chunk and "lo" to the keys it accepts and refuses the others with the given
  status; a turn of a service with three OpenRouter keys and no Groq key.\<close>

definition refused :: "int \<Rightarrow> js_error" where
  "refused s = \<lparr>status = Some s, message = Some ''refused''\<rparr>"

definition key_of :: "client \<Rightarrow> string" where
  "key_of cl = (case cl of GroqClient k \<Rightarrow> k | OpenRouterClient k \<Rightarrow> k)"

definition respond :: "(string \<Rightarrow> int option) \<Rightarrow> nat create" where
  "respond refusal cl model w =
     (case refusal (key_of cl) of
        None \<Rightarrow> (([Some ''Hel'', None, Some ''lo''], None), Suc w)
      | Some s \<Rightarrow> (([], Some (refused s)), Suc w))"

definition fresh_turn :: "nat turn" where
  "fresh_turn = \<lparr>service = new_ChatService None (Some ''k1, k2, k3''), net = 0, yielded = [], opened = []\<rparr>"


text \<open>That turn after its first request, made with "k1", was refused with status 401.\<close>

definition second_turn :: "nat turn" where
  "second_turn =
     \<lparr>service = \<lparr>groqClient = None, openRouterKeys = [''k1'', ''k2'', ''k3''], currentOpenRouterIndex = 1\<rparr>,
      net = 1, yielded = [],
      opened = [(OpenRouterClient ''k1'', ''openai/gpt-oss-120b'', Some (refused 401))]\<rparr>"


text \<open>A question with a label; the refined question a working processor returns for
  it; a processor that throws for the third enabled question only; an analysis of five
  enabled questions and one disabled; an application state.\<close>

definition question :: "string \<Rightarrow> bool \<Rightarrow> ExamQuestion" where
  "question l e =
     \<lparr>q_id = l, q_label = l, q_text = ''Explain '' @ l, q_marks = 5, q_suggestedAnswer = [],
      q_diagramRequired = False, q_diagramDescription = None, q_enabled = e, q_isJustified = None\<rparr>"

definition answered :: "ExamQuestion \<Rightarrow> RefinedQuestion" where
  "answered q =
     \<lparr>r_label = q_label q, r_text = q_text q, r_marks = q_marks q,
      r_refinedAnswer = ''Answer to '' @ q_label q, r_parts = [], r_isJustified = q_isJustified q\<rparr>"

definition third_fails :: processor where
  "third_fails j q = (if j = 2 then Inl (Some (Error ''no provider left'')) else Inr (answered q))"

definition five_questions :: ExamAnalysis where
  "five_questions =
     \<lparr>examTitle = ''Paper'', totalMarks = 30,
      questions = [question ''1'' True, question ''2'' True, question ''skipped'' False,
                   question ''3'' True, question ''4'' True, question ''5'' True]\<rparr>"

definition idle :: app where
  "idle = \<lparr>appState = REVIEWING, app_error = None, totalGenSteps = 0, currentGenStep = 0,
            refinedQuestions = []\<rparr>"


section \<open>The log of a run of the retry policy\<close>

lemma keys_invoked_append [simp]: "keys_invoked p (xs @ ys) = keys_invoked p xs @ keys_invoked p ys"
  by (induction p xs rule: keys_invoked.induct) auto

lemma errors_seen_append [simp]: "errors_seen p (xs @ ys) = errors_seen p xs @ errors_seen p ys"
  by (induction p xs rule: errors_seen.induct) auto

lemma groq_credentials_append [simp]: "groq_credentials (xs @ ys) = groq_credentials xs @ groq_credentials ys"
  by (induction xs rule: groq_credentials.induct) auto

lemma delays_append [simp]: "delays (xs @ ys) = delays xs @ delays ys"
  by (induction xs rule: delays.induct) auto

lemma shuffle_loop_mset: "i < length xs \<Longrightarrow> mset (fst (shuffle_loop rnd d i xs)) = mset xs"
proof (induction rnd d i xs rule: shuffle_loop.induct)
  case (1 rnd d shuffled)
  then show ?case by simp
next
  case (2 rnd d i' shuffled)
  let ?j = "rnd d mod (Suc i' + 1)"
  have j: "?j < length shuffled" using "2.prems" by (simp add: less_le_trans [OF mod_less_divisor])
  have "mset (shuffled[Suc i' := shuffled ! ?j, ?j := shuffled ! Suc i']) = mset shuffled"
    using mset_swap [OF j "2.prems"] by simp
  then show ?case using "2.IH" [OF refl refl] "2.prems" by (simp add: Let_def)
qed

lemma shuffleArray_mset: "mset (fst (shuffleArray rnd d xs)) = mset xs"
  by (cases xs) (simp_all add: shuffleArray_def shuffle_loop_mset)


lemma retry_loop_log:
  "retry_loop fn p k n maxR i le st = (res, le', st') \<Longrightarrow>
     \<exists>evs. log st' = log st @ evs \<and> entropy st' = entropy st \<and> draws st' = draws st
       \<and> retry_shape p k n (maxR - i) evs
       \<and> (i < maxR \<longrightarrow> keys_invoked p evs \<noteq> [])
       \<and> (case res of
             Some v \<Rightarrow> evs \<noteq> [] \<and> last evs = Invoke p k None
           | None \<Rightarrow> le' = (if errors_seen p evs = [] then le else Some (last (errors_seen p evs)))
                      \<and> length (errors_seen p evs) = length (keys_invoked p evs))"
proof (induction fn p k n maxR i le st arbitrary: res le' st' rule: retry_loop.induct)
  case (1 fn p k n maxR i le st)
  show ?case
  proof (cases "i < maxR")
    case False
    then show ?thesis using "1.prems"
      by (simp add: retry_loop.simps [of fn p k n maxR i] retry_shape_def)
  next
    case True
    obtain r w' where r: "fn k (world st) = (r, w')" by (cases "fn k (world st)")
    show ?thesis
    proof (cases r)
      case (Inr v)
      then have "res = Some v" "st' = emit (Invoke p k None) (st\<lparr>world := w'\<rparr>)"
        using "1.prems" True r by (auto simp: retry_loop.simps [of fn p k n maxR i])
      then show ?thesis using True
        by (intro exI [of _ "[Invoke p k None]"])
          (auto simp: retry_shape_def emit_def intro!: exI [of _ "Suc 0"])
    next
      case (Inl err)
      let ?st1 = "emit (Invoke p k (Some err)) (st\<lparr>world := w'\<rparr>)"
      show ?thesis
      proof (cases "isQuotaError err \<and> \<not> 1 < n \<and> i < maxR - 1")
        case False
        then have "res = None" "le' = Some err" "st' = ?st1"
          using "1.prems" True r Inl
          by (auto simp: retry_loop.simps [of fn p k n maxR i] Let_def split: if_splits)
        then show ?thesis using True
          by (intro exI [of _ "[Invoke p k (Some err)]"])
            (auto simp: retry_shape_def emit_def intro!: exI [of _ "Suc 0"])
      next
        case rec: True
        then have eq: "retry_loop fn p k n maxR (i + 1) (Some err) (emit (Delay 500) ?st1) = (res, le', st')"
          using "1.prems" True r Inl by (simp add: retry_loop.simps [of fn p k n maxR i])
        from "1.IH" [OF True r [symmetric] Inl refl _ _ eq] rec
        obtain evs where evs: "log st' = log (emit (Delay 500) ?st1) @ evs"
          "entropy st' = entropy st" "draws st' = draws st"
          "retry_shape p k n (maxR - (i + 1)) evs" "keys_invoked p evs \<noteq> []"
          "case res of Some v \<Rightarrow> evs \<noteq> [] \<and> last evs = Invoke p k None
           | None \<Rightarrow> le' = (if errors_seen p evs = [] then Some err else Some (last (errors_seen p evs)))
                      \<and> length (errors_seen p evs) = length (keys_invoked p evs)"
          by (auto simp: emit_def)
        let ?evs = "[Invoke p k (Some err), Delay 500] @ evs"
        have "log st' = log st @ ?evs" using evs(1) by (simp add: emit_def)
        moreover have "retry_shape p k n (maxR - i) ?evs"
        proof -
          from evs(4) obtain m where m: "keys_invoked p evs = replicate m k" "m \<le> maxR - (i + 1)"
            unfolding retry_shape_def by blast
          have "keys_invoked p ?evs = replicate (Suc m) k" using m by simp
          moreover have "Suc m \<le> maxR - i" using m rec by arith
          ultimately have "\<exists>m'. keys_invoked p ?evs = replicate m' k \<and> m' \<le> maxR - i \<and> (1 < n \<longrightarrow> m' \<le> 1)"
            using rec by blast
          then show ?thesis using evs(4) rec unfolding retry_shape_def by simp
        qed
        moreover have "keys_invoked p ?evs \<noteq> []" by simp
        moreover have "case res of Some v \<Rightarrow> ?evs \<noteq> [] \<and> last ?evs = Invoke p k None
           | None \<Rightarrow> le' = (if errors_seen p ?evs = [] then le else Some (last (errors_seen p ?evs)))
                      \<and> length (errors_seen p ?evs) = length (keys_invoked p ?evs)"
          using evs(6) by (auto split: option.splits)
        ultimately show ?thesis using evs(2,3) by blast
      qed
    qed
  qed
qed


lemma count_list_replicate: "count_list (replicate m k) k' = (if k = k' then m else 0)"
  by (induction m) auto

lemma pool_shape_Nil: "pool_shape p n maxR ks []"
  by (simp add: pool_shape_def)

lemma pool_shape_Cons:
  assumes "retry_shape p k n maxR evs1" and "pool_shape p n maxR ks evs2"
  shows "pool_shape p n maxR (k # ks) (evs1 @ evs2)"
proof -
  from assms(1) obtain m where m: "keys_invoked p evs1 = replicate m k" "m \<le> maxR" "1 < n \<longrightarrow> m \<le> 1"
    unfolding retry_shape_def by blast
  have a: "count_list (keys_invoked p (evs1 @ evs2)) k' \<le> maxR * count_list (k # ks) k'" for k'
  proof -
    have "count_list (keys_invoked p evs2) k' \<le> maxR * count_list ks k'"
      using assms(2) unfolding pool_shape_def by blast
    then show ?thesis using m(1,2) by (simp add: count_list_replicate)
  qed
  have b: "1 < n \<Longrightarrow> count_list (keys_invoked p (evs1 @ evs2)) k' \<le> count_list (k # ks) k'" for k'
  proof -
    assume n: "1 < n"
    then have "count_list (keys_invoked p evs2) k' \<le> count_list ks k'"
      using assms(2) unfolding pool_shape_def by blast
    then show ?thesis using m(1,3) n by (simp add: count_list_replicate)
  qed
  show ?thesis using a b assms unfolding pool_shape_def retry_shape_def by auto
qed

lemma key_loop_log:
  "key_loop fn p n maxR ks le st = (r, st') \<Longrightarrow>
     \<exists>evs. log st' = log st @ evs \<and> entropy st' = entropy st \<and> draws st' = draws st
       \<and> pool_shape p n maxR ks evs
       \<and> (case r of
             Inr v \<Rightarrow> evs \<noteq> [] \<and> (\<exists>k\<in>set ks. last evs = Invoke p k None)
           | Inl t \<Rightarrow> t = (if errors_seen p evs = [] then le else Some (last (errors_seen p evs)))
                      \<and> length (errors_seen p evs) = length (keys_invoked p evs)
                      \<and> (0 < maxR \<longrightarrow> set ks \<subseteq> set (keys_invoked p evs)))"
proof (induction ks arbitrary: le st)
  case Nil
  then show ?case by (intro exI [of _ "[]"]) (auto simp: pool_shape_Nil)
next
  case (Cons k ks)
  obtain res le1 st1 where rl: "retry_loop fn p k n maxR 0 le st = (res, le1, st1)"
    by (cases "retry_loop fn p k n maxR 0 le st") auto
  from retry_loop_log [OF rl] obtain evs1 where e1:
    "log st1 = log st @ evs1" "entropy st1 = entropy st" "draws st1 = draws st"
    "retry_shape p k n maxR evs1" "0 < maxR \<longrightarrow> keys_invoked p evs1 \<noteq> []"
    "case res of Some v \<Rightarrow> evs1 \<noteq> [] \<and> last evs1 = Invoke p k None
     | None \<Rightarrow> le1 = (if errors_seen p evs1 = [] then le else Some (last (errors_seen p evs1)))
                \<and> length (errors_seen p evs1) = length (keys_invoked p evs1)"
    by auto
  show ?case
  proof (cases res)
    case (Some v)
    then have "r = Inr v" "st' = st1" using Cons.prems rl by auto
    moreover have "pool_shape p n maxR (k # ks) (evs1 @ [])"
      by (rule pool_shape_Cons [OF e1(4) pool_shape_Nil])
    ultimately show ?thesis using e1 Some
      by (intro exI [of _ evs1]) auto
  next
    case None
    then have kl: "key_loop fn p n maxR ks le1 st1 = (r, st')" using Cons.prems rl by simp
    from Cons.IH [OF kl] obtain evs2 where e2:
      "log st' = log st1 @ evs2" "entropy st' = entropy st1" "draws st' = draws st1"
      "pool_shape p n maxR ks evs2"
      "case r of
         Inr v \<Rightarrow> evs2 \<noteq> [] \<and> (\<exists>k\<in>set ks. last evs2 = Invoke p k None)
       | Inl t \<Rightarrow> t = (if errors_seen p evs2 = [] then le1 else Some (last (errors_seen p evs2)))
                  \<and> length (errors_seen p evs2) = length (keys_invoked p evs2)
                  \<and> (0 < maxR \<longrightarrow> set ks \<subseteq> set (keys_invoked p evs2))"
      by auto
    from e1(4) obtain m where m: "keys_invoked p evs1 = replicate m k"
      unfolding retry_shape_def by blast
    have k_in: "0 < maxR \<Longrightarrow> k \<in> set (keys_invoked p evs1)"
      using e1(5) m by (cases m) auto
    have "log st' = log st @ (evs1 @ evs2)" using e1(1) e2(1) by simp
    moreover have "pool_shape p n maxR (k # ks) (evs1 @ evs2)"
      by (rule pool_shape_Cons [OF e1(4) e2(4)])
    moreover have "case r of
         Inr v \<Rightarrow> evs1 @ evs2 \<noteq> [] \<and> (\<exists>k'\<in>set (k # ks). last (evs1 @ evs2) = Invoke p k' None)
       | Inl t \<Rightarrow> t = (if errors_seen p (evs1 @ evs2) = [] then le
                       else Some (last (errors_seen p (evs1 @ evs2))))
                  \<and> length (errors_seen p (evs1 @ evs2)) = length (keys_invoked p (evs1 @ evs2))
                  \<and> (0 < maxR \<longrightarrow> set (k # ks) \<subseteq> set (keys_invoked p (evs1 @ evs2)))"
      using e1(6) e2(5) None k_in by (auto split: sum.splits)
    ultimately show ?thesis using e1(2,3) e2(2,3) by (intro exI [of _ "evs1 @ evs2"]) simp
  qed
qed


lemma pool_shape_perm:
  "mset ks = mset ks' \<Longrightarrow> pool_shape p n maxR ks evs = pool_shape p n maxR ks' evs"
proof -
  assume "mset ks = mset ks'"
  then have "count_list ks k = count_list ks' k" for k
    by (metis count_mset)
  then show ?thesis by (simp add: pool_shape_def)
qed

lemma withProviderRetry_log:
  assumes "withProviderRetry cfg p fn maxR st = (r, st')" and "provider_keys cfg p \<noteq> []"
  shows "\<exists>evs. log st' = log st @ evs \<and> entropy st' = entropy st
       \<and> pool_shape p (length (provider_keys cfg p)) maxR (provider_keys cfg p) evs
       \<and> (case r of
             Inr v \<Rightarrow> evs \<noteq> [] \<and> (\<exists>k\<in>set (provider_keys cfg p). last evs = Invoke p k None)
           | Inl t \<Rightarrow> t = (if errors_seen p evs = [] then None else Some (last (errors_seen p evs)))
                      \<and> length (errors_seen p evs) = length (keys_invoked p evs)
                      \<and> (0 < maxR \<longrightarrow> set (provider_keys cfg p) \<subseteq> set (keys_invoked p evs)))"
proof -
  let ?keys = "provider_keys cfg p"
  let ?sh = "shuffleArray (entropy st) (draws st) ?keys"
  have perm: "mset (fst ?sh) = mset ?keys" by (rule shuffleArray_mset)
  have len: "length (fst ?sh) = length ?keys" using perm by (rule mset_eq_length)
  have set_eq: "set (fst ?sh) = set ?keys" using perm by (rule mset_eq_setD)
  have kl: "key_loop fn p (length ?keys) maxR (fst ?sh) None (st\<lparr>draws := snd ?sh\<rparr>) = (r, st')"
    using assms by (simp add: withProviderRetry_def Let_def len)
  from key_loop_log [OF kl] obtain evs where
    "log st' = log st @ evs" "entropy st' = entropy st"
    "pool_shape p (length ?keys) maxR (fst ?sh) evs"
    "case r of
       Inr v \<Rightarrow> evs \<noteq> [] \<and> (\<exists>k\<in>set (fst ?sh). last evs = Invoke p k None)
     | Inl t \<Rightarrow> t = (if errors_seen p evs = [] then None else Some (last (errors_seen p evs)))
                \<and> length (errors_seen p evs) = length (keys_invoked p evs)
                \<and> (0 < maxR \<longrightarrow> set (fst ?sh) \<subseteq> set (keys_invoked p evs))"
    by auto
  then show ?thesis unfolding set_eq pool_shape_perm [OF perm] by blast
qed



lemma retry_loop_returns:
  assumes "always_returns fn k" and "i < maxR"
  shows "\<exists>v. fst (retry_loop fn p k n maxR i le st) = Some v"
proof -
  have "\<not> isl (fst (fn k (world st)))" using assms(1) unfolding always_returns_def by blast
  then obtain v w' where "fn k (world st) = (Inr v, w')"
    by (cases "fn k (world st)"; cases "fst (fn k (world st))") auto
  then show ?thesis using assms(2) by (simp add: retry_loop.simps [of fn p k n maxR i])
qed

lemma retry_loop_throws:
  "always_throws fn k \<Longrightarrow> fst (retry_loop fn p k n maxR i le st) = None"
proof (induction fn p k n maxR i le st rule: retry_loop.induct)
  case (1 fn p k n maxR i le st)
  have "isl (fst (fn k (world st)))" using "1.prems" unfolding always_throws_def by blast
  then obtain err w' where x: "fn k (world st) = (Inl err, w')"
    by (cases "fn k (world st)"; cases "fst (fn k (world st))") auto
  show ?case using "1.IH" [OF _ x [symmetric] refl refl] "1.prems" x
    by (subst retry_loop.simps) (auto simp: Let_def)
qed



lemma key_loop_failover:
  assumes "0 < maxR"
    and "\<forall>k\<in>set ks. always_returns fn k \<or> always_throws fn k"
    and "\<exists>k\<in>set ks. always_returns fn k"
  shows "\<exists>v st' k. key_loop fn p n maxR ks le st = (Inr v, st') \<and> k \<in> set ks
           \<and> always_returns fn k \<and> last (log st') = Invoke p k None"
  using assms(2,3)
proof (induction ks arbitrary: le st)
  case Nil
  then show ?case by simp
next
  case (Cons k ks)
  obtain res le1 st1 where rl: "retry_loop fn p k n maxR 0 le st = (res, le1, st1)"
    by (cases "retry_loop fn p k n maxR 0 le st") auto
  show ?case
  proof (cases "always_returns fn k")
    case True
    from retry_loop_returns [OF True assms(1), of p n le st] rl obtain v where v: "res = Some v"
      by auto
    from retry_loop_log [OF rl] v obtain evs where
      "log st1 = log st @ evs" "evs \<noteq> []" "last evs = Invoke p k None" by auto
    then have "last (log st1) = Invoke p k None" by simp
    then show ?thesis using rl v True by auto
  next
    case False
    then have thr: "always_throws fn k" using Cons.prems(1) by auto
    have "res = None" using retry_loop_throws [OF thr, of p n maxR 0 le st] rl by simp
    moreover have "\<forall>k\<in>set ks. always_returns fn k \<or> always_throws fn k"
      using Cons.prems(1) by simp
    moreover have "\<exists>k\<in>set ks. always_returns fn k" using Cons.prems(2) False by auto
    ultimately show ?thesis using Cons.IH [of le1 st1] rl by auto
  qed
qed

lemma key_loop_throws:
  "\<forall>k\<in>set ks. always_throws fn k \<Longrightarrow> \<exists>t. fst (key_loop fn p n maxR ks le st) = Inl t"
proof (induction ks arbitrary: le st)
  case Nil
  then show ?case by simp
next
  case (Cons k ks)
  obtain res le1 st1 where rl: "retry_loop fn p k n maxR 0 le st = (res, le1, st1)"
    by (cases "retry_loop fn p k n maxR 0 le st") auto
  have "res = None" using retry_loop_throws [of fn k p n maxR 0 le st] Cons.prems rl by simp
  then show ?case using Cons.IH [of le1 st1] Cons.prems rl by simp
qed

lemma new_events_append: "log st' = log st @ evs \<Longrightarrow> new_events st st' = evs"
  by (simp add: new_events_def)





lemma two_keys_pool: "provider_keys two_keys Gemini = [''bad'', ''good'']"
  by (simp add: two_keys_def provider_keys_def getGeminiKeys_def browser_config_def js_or_def
      truthy_def getAllKeys_def trim_def is_ws_def)




lemma withProviderRetry_throws:
  assumes "provider_keys cfg provider \<noteq> []" and "0 < maxR"
    and "withProviderRetry cfg provider fn maxR st = (Inl t, st')"
  shows "\<exists>evs. log st' = log st @ evs \<and> errors_seen provider evs \<noteq> []
           \<and> t = Some (last (errors_seen provider evs))
           \<and> set (provider_keys cfg provider) \<subseteq> set (keys_invoked provider evs)
           \<and> pool_shape provider (length (provider_keys cfg provider)) maxR (provider_keys cfg provider) evs"
proof -
  from withProviderRetry_log [OF assms(3,1)] assms(2) obtain evs where evs:
    "log st' = log st @ evs"
    "pool_shape provider (length (provider_keys cfg provider)) maxR (provider_keys cfg provider) evs"
    "t = (if errors_seen provider evs = [] then None else Some (last (errors_seen provider evs)))"
    "length (errors_seen provider evs) = length (keys_invoked provider evs)"
    "set (provider_keys cfg provider) \<subseteq> set (keys_invoked provider evs)"
    by auto
  have "keys_invoked provider evs \<noteq> []" using evs(5) assms(1) by auto
  then have "errors_seen provider evs \<noteq> []" using evs(4) by auto
  then show ?thesis using evs by auto
qed

lemma withProviderRetry_all_throw:
  assumes "\<forall>k\<in>set (provider_keys cfg provider). always_throws fn k"
  shows "\<exists>t. fst (withProviderRetry cfg provider fn maxR st) = Inl t"
proof (cases "provider_keys cfg provider = []")
  case True
  then show ?thesis by (simp add: withProviderRetry_def)
next
  case False
  let ?sh = "shuffleArray (entropy st) (draws st) (provider_keys cfg provider)"
  have "set (fst ?sh) = set (provider_keys cfg provider)"
    by (rule mset_eq_setD [OF shuffleArray_mset])
  then have "\<forall>k\<in>set (fst ?sh). always_throws fn k" using assms by simp
  from key_loop_throws [OF this] show ?thesis using False
    by (simp add: withProviderRetry_def Let_def)
qed

lemma fail_run:
 "withProviderRetry two_keys Gemini fail_with_key 1 start =
     (Inl (Some (Error ''rejected bad'')),
      \<lparr>world = 2, entropy = (\<lambda>n. n), draws = 1,
       log = [Invoke Gemini ''good'' (Some (Error ''rejected good'')),
              Invoke Gemini ''bad'' (Some (Error ''rejected bad''))]\<rparr>)"
  by (simp add: withProviderRetry_def two_keys_pool shuffleArray_def start_def retry_loop.simps
      fail_with_key_def emit_def isQuotaError_def Error_def js_includes_def Let_def)


section \<open>Credential parsing\<close>

lemma split_on_pieces: "\<forall>p\<in>set (split_on sep s). set p \<subseteq> set s \<and> (\<forall>c\<in>set p. \<not> sep c)"
proof (induction s)
  case Nil
  then show ?case by simp
next
  case (Cons c cs)
  show ?case
  proof (cases "sep c")
    case True
    then show ?thesis using Cons by auto
  next
    case False
    show ?thesis
    proof (cases "split_on sep cs")
      case Nil
      then show ?thesis using False by simp
    next
      case (Cons q qs)
      then have "set q \<subseteq> set cs \<and> (\<forall>c\<in>set q. \<not> sep c)"
        and "\<forall>p\<in>set qs. set p \<subseteq> set cs \<and> (\<forall>c\<in>set p. \<not> sep c)"
        using Cons.IH by simp_all
      then show ?thesis using False Cons by auto
    qed
  qed
qed

lemma trim_blank:
  assumes "\<forall>c\<in>set s. is_ws c"
  shows "trim s = []"
proof -
  have dw: "dropWhile is_ws s = []" using assms by (induction s) auto
  show ?thesis unfolding trim_def dw by simp
qed

lemma last_dropWhile_same: "dropWhile P xs \<noteq> [] \<Longrightarrow> last (dropWhile P xs) = last xs"
  by (induction xs) (auto split: if_splits)

lemma set_dropWhile_subset: "set (dropWhile P xs) \<subseteq> set xs"
  by (auto dest: set_dropWhileD)

lemma set_trim: "set (trim s) \<subseteq> set s"
proof -
  have "set (trim s) = set (dropWhile is_ws (rev (dropWhile is_ws s)))" by (simp add: trim_def)
  also have "\<dots> \<subseteq> set (rev (dropWhile is_ws s))" by (rule set_dropWhile_subset)
  also have "\<dots> = set (dropWhile is_ws s)" by simp
  also have "\<dots> \<subseteq> set s" by (rule set_dropWhile_subset)
  finally show ?thesis .
qed

lemma getAllKeys_example: "getAllKeys (Some ''a, b,\<newline>c'') = [''a'', ''b'', ''c'']"
  by (simp add: getAllKeys_def trim_def is_ws_def)

lemma getAllKeys_absent: "getAllKeys None = [] \<and> getAllKeys (Some []) = []"
  by (simp add: getAllKeys_def)

lemma getAllKeys_blank:
  assumes "\<forall>c\<in>set s. is_ws c"
  shows "getAllKeys (Some s) = []"
proof -
  let ?sep = "\<lambda>c. c = CHR '','' \<or> c = CHR 0x0A"
  have "trim p = []" if "p \<in> set (split_on ?sep s)" for p
  proof (rule trim_blank)
    have "set p \<subseteq> set s" using split_on_pieces [of ?sep s] that by blast
    then show "\<forall>c\<in>set p. is_ws c" using assms by blast
  qed
  then have "filter (\<lambda>k. length k > 0) (map trim (split_on ?sep s)) = []"
    by (simp add: filter_empty_conv)
  then show ?thesis by (simp add: getAllKeys_def)
qed

lemma getAllKeys_entries:
  assumes "k \<in> set (getAllKeys ks)"
  shows "k \<noteq> [] \<and> CHR '','' \<notin> set k \<and> CHR 0x0A \<notin> set k \<and> \<not> is_ws (hd k) \<and> \<not> is_ws (last k)"
proof -
  from assms obtain s p where p: "p \<in> set (split_on (\<lambda>c. c = CHR '','' \<or> c = CHR 0x0A) s)"
    "k = trim p" "k \<noteq> []"
    by (auto simp: getAllKeys_def split: option.splits if_splits)
  have kp: "set k \<subseteq> set p" using p(2) set_trim by simp
  have "\<forall>c\<in>set p. \<not> (c = CHR '','' \<or> c = CHR 0x0A)"
    using split_on_pieces [of "\<lambda>c. c = CHR '','' \<or> c = CHR 0x0A" s] p(1) by blast
  then have sep: "CHR '','' \<notin> set k \<and> CHR 0x0A \<notin> set k" using kp by blast
  let ?q = "dropWhile is_ws p"
  let ?d = "dropWhile is_ws (rev ?q)"
  have k: "k = rev ?d" using p(2) by (simp only: trim_def)
  have d: "?d \<noteq> []" using k p(3) by (metis rev.simps(1))
  have q: "?q \<noteq> []" using d by (metis dropWhile.simps(1) rev.simps(1))
  have "\<not> is_ws (hd ?d)" using d by (rule hd_dropWhile)
  moreover have "last k = hd ?d" unfolding k by (rule last_rev)
  ultimately have l: "\<not> is_ws (last k)" by simp
  have "hd k = last ?d" unfolding k by (rule hd_rev)
  also have "\<dots> = last (rev ?q)" using d by (rule last_dropWhile_same)
  also have "\<dots> = hd ?q" by (rule last_rev)
  finally have "hd k = hd ?q" .
  moreover have "\<not> is_ws (hd ?q)" using q by (rule hd_dropWhile)
  ultimately have "\<not> is_ws (hd k)" by simp
  then show ?thesis using p(3) sep l by simp
qed

lemma ChatService_example:
  "openRouterKeys (new_ChatService None (Some ''a, b,\<newline>c'')) = [''a'', ''b'', ''c'']"
  by (simp add: new_ChatService_def trim_def is_ws_def)

lemma ChatService_blank:
  assumes "\<forall>c\<in>set s. is_ws c"
  shows "openRouterKeys (new_ChatService g (Some s)) = []"
proof -
  let ?sep = "\<lambda>c. c = CHR '',''"
  have "trim p = []" if "p \<in> set (split_on ?sep s)" for p
  proof (rule trim_blank)
    have "set p \<subseteq> set s" using split_on_pieces [of ?sep s] that by blast
    then show "\<forall>c\<in>set p. is_ws c" using assms by blast
  qed
  then have "filter (\<lambda>k. length k > 0) (map trim (split_on ?sep s)) = []"
    by (simp add: filter_empty_conv)
  then show ?thesis by (simp add: new_ChatService_def)
qed

lemma ChatService_absent:
  "openRouterKeys (new_ChatService g None) = [] \<and> openRouterKeys (new_ChatService g (Some [])) = []"
  by (simp add: new_ChatService_def)


section \<open>The fallback chain of analyzeExamPaper\<close>

lemma withProviderRetry_run:
  assumes "withProviderRetry cfg p fn maxR st = (r, st')" and "0 < maxR"
  shows "\<exists>evs. log st' = log st @ evs \<and> entropy st' = entropy st
       \<and> pool_shape p (length (provider_keys cfg p)) maxR (provider_keys cfg p) evs
       \<and> (case r of
             Inr v \<Rightarrow> evs \<noteq> [] \<and> (\<exists>k\<in>set (provider_keys cfg p). last evs = Invoke p k None)
           | Inl t \<Rightarrow> t = Some (thrown_by_retry p cfg evs)
                      \<and> set (provider_keys cfg p) \<subseteq> set (keys_invoked p evs)
                      \<and> length (errors_seen p evs) = length (keys_invoked p evs))"
proof (cases "provider_keys cfg p = []")
  case True
  then have "r = Inl (Some (Error (''No API keys available for provider: '' @ provider_name p)))" "st' = st"
    using assms(1) by (simp_all add: withProviderRetry_def)
  then show ?thesis using True
    by (intro exI [of _ "[]"]) (simp add: pool_shape_Nil thrown_by_retry_def)
next
  case False
  from withProviderRetry_log [OF assms(1) False] obtain evs where evs:
    "log st' = log st @ evs" "entropy st' = entropy st"
    "pool_shape p (length (provider_keys cfg p)) maxR (provider_keys cfg p) evs"
    "case r of
       Inr v \<Rightarrow> evs \<noteq> [] \<and> (\<exists>k\<in>set (provider_keys cfg p). last evs = Invoke p k None)
     | Inl t \<Rightarrow> t = (if errors_seen p evs = [] then None else Some (last (errors_seen p evs)))
                \<and> length (errors_seen p evs) = length (keys_invoked p evs)
                \<and> (0 < maxR \<longrightarrow> set (provider_keys cfg p) \<subseteq> set (keys_invoked p evs))"
    by blast
  show ?thesis
  proof (cases r)
    case (Inr v)
    then show ?thesis using evs by (intro exI [of _ evs]) simp
  next
    case (Inl t)
    then have sub: "set (provider_keys cfg p) \<subseteq> set (keys_invoked p evs)"
      and len: "length (errors_seen p evs) = length (keys_invoked p evs)"
      and t: "t = (if errors_seen p evs = [] then None else Some (last (errors_seen p evs)))"
      using evs(4) assms(2) by simp_all
    have "keys_invoked p evs \<noteq> []" using sub False by auto
    then have "errors_seen p evs \<noteq> []" using len by auto
    then have "t = Some (thrown_by_retry p cfg evs)" using t False by (simp add: thrown_by_retry_def)
    then show ?thesis using Inl evs(1,2,3) sub len by (intro exI [of _ evs]) simp
  qed
qed

lemma retry_failed:
  assumes "withProviderRetry cfg p fn 1 st = (Inl t, st')"
  shows "\<exists>evs. log st' = log st @ evs \<and> tried_all p cfg evs \<and> t = Some (thrown_by_retry p cfg evs)"
  using withProviderRetry_run [OF assms] by (auto simp: tried_all_def)

lemma callGroq_log:
  "callGroq scan apiKey model st = (r, st') \<Longrightarrow>
     log st' = log st @ [GroqRequest model apiKey (case r of Inl e \<Rightarrow> Some e | Inr v \<Rightarrow> None)]"
  by (auto simp: callGroq_def emit_def split: prod.splits sum.splits)

lemma analyzeWithGroq_failed:
  assumes "analyzeWithGroq scan cfg st = (Inl t, st')"
  shows "\<exists>e evs. t = Some e \<and> log st' = log st @ evs \<and> groq_layer cfg evs"
proof (cases "truthy (getGroqApiKey cfg)")
  case False
  then have "t = Some (Error ''No Groq API key available'')" "st' = st"
    using assms by (auto simp: analyzeWithGroq_def truthy_def split: option.splits if_splits)
  then show ?thesis by (intro exI [of _ "Error ''No Groq API key available''"] exI [of _ "[]"])
      (simp add: groq_layer_def)
next
  case True
  then obtain k where k: "getGroqApiKey cfg = Some k" "k \<noteq> []"
    by (auto simp: truthy_def split: option.splits)
  let ?m1 = "''meta-llama/llama-4-maverick-17b-128e-instruct''"
  let ?m2 = "''llama-3.2-90b-vision-preview''"
  obtain r1 st1 where c1: "callGroq scan k ?m1 st = (r1, st1)" by (cases "callGroq scan k ?m1 st")
  let ?st1 = "emit (Console ''Groq Llama 4 failed, falling back to Llama 3.2 Vision...'') st1"
  obtain r2 st2 where c2: "callGroq scan k ?m2 ?st1 = (r2, st2)" by (cases "callGroq scan k ?m2 ?st1")
  from assms k c1 obtain e1 where r1: "r1 = Inl e1"
    by (cases r1) (auto simp: analyzeWithGroq_def)
  from assms k c1 c2 r1 obtain e2 where r2: "r2 = Inl e2" "t = Some e2" "st' = st2"
    by (cases r2) (auto simp: analyzeWithGroq_def)
  let ?evs = "[GroqRequest ?m1 k (Some e1),
               Console ''Groq Llama 4 failed, falling back to Llama 3.2 Vision...'',
               GroqRequest ?m2 k (Some e2)]"
  have "log st' = log st @ ?evs"
    using callGroq_log [OF c1] callGroq_log [OF c2] r1 r2 by (simp add: emit_def)
  moreover have "groq_layer cfg ?evs" using k by (simp add: groq_layer_def)
  ultimately show ?thesis using r2 by blast
qed


lemma layer4_failed:
  assumes "layer4 scan cfg st = (Inl e, st')"
  shows "\<exists>l4. log st' = log st @ Console ''Attempting scan with Layer 4: OpenRouter'' # l4
                   @ [Console ''All layers failed.'']
           \<and> tried_all OpenRouter cfg l4
           \<and> e = Some (Error (''Scan failed after 4 types of fallback. Last error: ''
                               @ error_text (thrown_by_retry OpenRouter cfg l4)))"
proof -
  let ?st0 = "emit (Console ''Attempting scan with Layer 4: OpenRouter'') st"
  obtain r st1 where run: "analyzeWithOpenRouter scan cfg ?st0 = (r, st1)"
    by (cases "analyzeWithOpenRouter scan cfg ?st0")
  from assms run obtain t where r: "r = Inl t" by (cases r) (auto simp: layer4_def)
  from retry_failed [OF run [unfolded analyzeWithOpenRouter_def r]] obtain l4 where l4:
    "log st1 = log ?st0 @ l4" "tried_all OpenRouter cfg l4"
    "t = Some (thrown_by_retry OpenRouter cfg l4)" by blast
  have "st' = emit (Console ''All layers failed.'') st1"
    and "e = Some (Error (''Scan failed after 4 types of fallback. Last error: ''
                               @ error_text (thrown_by_retry OpenRouter cfg l4)))"
    using assms run r l4(3) by (simp_all add: layer4_def message_of_def Let_def)
  then show ?thesis using l4 by (intro exI [of _ l4]) (simp add: emit_def)
qed

lemma layer3_failed:
  assumes "layer3 scan cfg st = (Inl e, st')"
  shows "\<exists>l3 c3 l4. log st' = log st @ Console ''Attempting scan with Layer 3: Groq Vision'' # l3
                   @ Console c3 # Console ''Attempting scan with Layer 4: OpenRouter'' # l4
                   @ [Console ''All layers failed.'']
           \<and> groq_layer cfg l3 \<and> tried_all OpenRouter cfg l4
           \<and> e = Some (Error (''Scan failed after 4 types of fallback. Last error: ''
                               @ error_text (thrown_by_retry OpenRouter cfg l4)))"
proof -
  let ?st0 = "emit (Console ''Attempting scan with Layer 3: Groq Vision'') st"
  obtain r st1 where run: "analyzeWithGroq scan cfg ?st0 = (r, st1)"
    by (cases "analyzeWithGroq scan cfg ?st0")
  from assms run obtain t where r: "r = Inl t" by (cases r) (auto simp: layer3_def)
  from analyzeWithGroq_failed [OF run [unfolded r]] obtain x l3 where l3:
    "t = Some x" "log st1 = log ?st0 @ l3" "groq_layer cfg l3" by blast
  let ?c3 = "''Layer 3 (Groq) failed: '' @ error_text x @ ''. Trying Layer 4 (OpenRouter)...''"
  have "layer4 scan cfg (emit (Console ?c3) st1) = (Inl e, st')"
    using assms run r l3(1) by (simp add: layer3_def message_of_def)
  from layer4_failed [OF this] obtain l4 where l4:
    "log st' = log (emit (Console ?c3) st1) @ Console ''Attempting scan with Layer 4: OpenRouter'' # l4
                   @ [Console ''All layers failed.'']"
    "tried_all OpenRouter cfg l4"
    "e = Some (Error (''Scan failed after 4 types of fallback. Last error: ''
                               @ error_text (thrown_by_retry OpenRouter cfg l4)))" by blast
  show ?thesis using l3(2,3) l4
    by (intro exI [of _ l3] exI [of _ ?c3] exI [of _ l4]) (simp add: emit_def)
qed

lemma layer2_failed:
  assumes "layer2 scan cfg st = (Inl e, st')"
  shows "\<exists>l2 c2 l3 c3 l4. log st' = log st @ l2
                   @ Console c2 # Console ''Attempting scan with Layer 3: Groq Vision'' # l3
                   @ Console c3 # Console ''Attempting scan with Layer 4: OpenRouter'' # l4
                   @ [Console ''All layers failed.'']
           \<and> tried_all Gemini cfg l2 \<and> groq_layer cfg l3 \<and> tried_all OpenRouter cfg l4
           \<and> e = Some (Error (''Scan failed after 4 types of fallback. Last error: ''
                               @ error_text (thrown_by_retry OpenRouter cfg l4)))"
proof -
  let ?fn = "scan GeminiAPI ''gemini-2.0-flash-exp''"
  obtain r st1 where run: "withProviderRetry cfg Gemini ?fn 1 st = (r, st1)"
    by (cases "withProviderRetry cfg Gemini ?fn 1 st")
  from assms run obtain t where r: "r = Inl t" by (cases r) (auto simp: layer2_def)
  from retry_failed [OF run [unfolded r]] obtain l2 where l2:
    "log st1 = log st @ l2" "tried_all Gemini cfg l2"
    "t = Some (thrown_by_retry Gemini cfg l2)" by blast
  let ?c2 = "''Layer 2 (Gemini 2.0) failed: '' @ error_text (thrown_by_retry Gemini cfg l2)
               @ ''. Trying Layer 3 (Groq)...''"
  have "layer3 scan cfg (emit (Console ?c2) st1) = (Inl e, st')"
    using assms run r l2(3) by (simp add: layer2_def message_of_def)
  from layer3_failed [OF this] obtain l3 c3 l4 where rest:
    "log st' = log (emit (Console ?c2) st1) @ Console ''Attempting scan with Layer 3: Groq Vision'' # l3
                   @ Console c3 # Console ''Attempting scan with Layer 4: OpenRouter'' # l4
                   @ [Console ''All layers failed.'']"
    "groq_layer cfg l3" "tried_all OpenRouter cfg l4"
    "e = Some (Error (''Scan failed after 4 types of fallback. Last error: ''
                               @ error_text (thrown_by_retry OpenRouter cfg l4)))" by blast
  show ?thesis using l2(1,2) rest
    by (intro exI [of _ l2] exI [of _ ?c2] exI [of _ l3] exI [of _ c3] exI [of _ l4])
      (simp add: emit_def)
qed

lemma analyzeExamPaper_failed:
  assumes "analyzeExamPaper scan cfg modelName st = (Inl e, st')"
  shows "\<exists>l1 c1 l2 c2 l3 c3 l4. log st' = log st @ l1 @ Console c1 # l2
                   @ Console c2 # Console ''Attempting scan with Layer 3: Groq Vision'' # l3
                   @ Console c3 # Console ''Attempting scan with Layer 4: OpenRouter'' # l4
                   @ [Console ''All layers failed.'']
           \<and> tried_all Gemini cfg l1 \<and> tried_all Gemini cfg l2
           \<and> groq_layer cfg l3 \<and> tried_all OpenRouter cfg l4
           \<and> e = Some (Error (''Scan failed after 4 types of fallback. Last error: ''
                               @ error_text (thrown_by_retry OpenRouter cfg l4)))"
proof -
  let ?fn = "scan GeminiAPI modelName"
  obtain r st1 where run: "withProviderRetry cfg Gemini ?fn 1 st = (r, st1)"
    by (cases "withProviderRetry cfg Gemini ?fn 1 st")
  from assms run obtain t where r: "r = Inl t" by (cases r) (auto simp: analyzeExamPaper_def)
  from retry_failed [OF run [unfolded r]] obtain l1 where l1:
    "log st1 = log st @ l1" "tried_all Gemini cfg l1"
    "t = Some (thrown_by_retry Gemini cfg l1)" by blast
  let ?c1 = "''Layer 1 (Gemini 3) failed: '' @ error_text (thrown_by_retry Gemini cfg l1)
               @ ''. Trying Layer 2...''"
  have "layer2 scan cfg (emit (Console ?c1) st1) = (Inl e, st')"
    using assms run r l1(3) by (simp add: analyzeExamPaper_def message_of_def)
  from layer2_failed [OF this] obtain l2 c2 l3 c3 l4 where rest:
    "log st' = log (emit (Console ?c1) st1) @ l2
                   @ Console c2 # Console ''Attempting scan with Layer 3: Groq Vision'' # l3
                   @ Console c3 # Console ''Attempting scan with Layer 4: OpenRouter'' # l4
                   @ [Console ''All layers failed.'']"
    "tried_all Gemini cfg l2" "groq_layer cfg l3" "tried_all OpenRouter cfg l4"
    "e = Some (Error (''Scan failed after 4 types of fallback. Last error: ''
                               @ error_text (thrown_by_retry OpenRouter cfg l4)))" by blast
  show ?thesis using l1(1,2) rest
    by (intro exI [of _ l1] exI [of _ ?c1] exI [of _ l2] exI [of _ c2] exI [of _ l3]
        exI [of _ c3] exI [of _ l4]) (simp add: emit_def)
qed

lemma errors_seen_other:
  "tried_all p cfg evs \<Longrightarrow> q \<noteq> p \<Longrightarrow> errors_seen q evs = [] \<and> keys_invoked q evs = []"
  by (simp add: tried_all_def pool_shape_def)

lemmas eval_defs =
  withProviderRetry_def provider_keys_def getGeminiKeys_def getOpenRouterKeys_def getGroqApiKey_def
  browser_config_def js_or_def truthy_def getAllKeys_def trim_def is_ws_def provider_name_def
  shuffleArray_def start_def retry_loop.simps emit_def isQuotaError_def Error_def js_includes_def
  Let_def message_of_def error_text_def

lemma three_keys_run:
  "analyzeExamPaper reject_all three_keys ''gemini-3-flash-preview'' start =
     (Inl (Some (Error ''Scan failed after 4 types of fallback. Last error: rejected r'')),
      three_keys_failed)"
  by (simp add: analyzeExamPaper_def layer2_def layer3_def layer4_def analyzeWithGroq_def
      analyzeWithOpenRouter_def callGroq_def reject_all_def three_keys_def three_keys_failed_def
      eval_defs)

lemma groq_pair_run:
  "log (snd (analyzeExamPaper reject_all groq_pair ''gemini-3-flash-preview'' start)) =
     [Console ''Layer 1 (Gemini 3) failed: No API keys available for provider: gemini. Trying Layer 2...'',
      Console ''Layer 2 (Gemini 2.0) failed: No API keys available for provider: gemini. Trying Layer 3 (Groq)...'',
      Console ''Attempting scan with Layer 3: Groq Vision'',
      GroqRequest ''meta-llama/llama-4-maverick-17b-128e-instruct'' ''g1,g2'' (Some (Error ''rejected g1,g2'')),
      Console ''Groq Llama 4 failed, falling back to Llama 3.2 Vision...'',
      GroqRequest ''llama-3.2-90b-vision-preview'' ''g1,g2'' (Some (Error ''rejected g1,g2'')),
      Console ''Layer 3 (Groq) failed: rejected g1,g2. Trying Layer 4 (OpenRouter)...'',
      Console ''Attempting scan with Layer 4: OpenRouter'',
      Console ''All layers failed.'']"
  by (simp add: analyzeExamPaper_def layer2_def layer3_def layer4_def analyzeWithGroq_def
      analyzeWithOpenRouter_def callGroq_def reject_all_def groq_pair_def eval_defs)


lemma retry_failed_new:
  assumes "withProviderRetry cfg p fn 1 st = (Inl t, st')"
  shows "tried_all p cfg (new_events st st') \<and> (\<exists>e. t = Some e)"
  using retry_failed [OF assms] by (auto simp: new_events_append)

lemma analyzeWithGroq_run:
  assumes "analyzeWithGroq scan cfg st = (x, st')"
  shows "groq_layer cfg (new_events st st') \<and> (\<forall>t. x = Inl t \<longrightarrow> (\<exists>e. t = Some e))"
proof (cases x)
  case (Inl t)
  from analyzeWithGroq_failed [OF assms [unfolded Inl]] show ?thesis
    using Inl by (auto simp: new_events_append)
next
  case (Inr v)
  from assms Inr obtain k where k: "getGroqApiKey cfg = Some k" "k \<noteq> []"
    by (auto simp: analyzeWithGroq_def split: option.splits if_splits)
  let ?m1 = "''meta-llama/llama-4-maverick-17b-128e-instruct''"
  let ?m2 = "''llama-3.2-90b-vision-preview''"
  obtain r1 st1 where c1: "callGroq scan k ?m1 st = (r1, st1)" by (cases "callGroq scan k ?m1 st")
  let ?st1 = "emit (Console ''Groq Llama 4 failed, falling back to Llama 3.2 Vision...'') st1"
  obtain r2 st2 where c2: "callGroq scan k ?m2 ?st1 = (r2, st2)" by (cases "callGroq scan k ?m2 ?st1")
  show ?thesis
  proof (cases r1)
    case served: (Inr v1)
    then have "st' = st1" using assms k c1 by (simp add: analyzeWithGroq_def)
    then have "new_events st st' = [GroqRequest ?m1 k None]"
      using callGroq_log [OF c1] served by (simp add: new_events_append)
    then show ?thesis using Inr k by (simp add: groq_layer_def)
  next
    case failed: (Inl e1)
    then have "st' = st2" using assms k c1 c2 Inr by (cases r2) (simp_all add: analyzeWithGroq_def)
    then have "log st' = log st @ [GroqRequest ?m1 k (Some e1),
        Console ''Groq Llama 4 failed, falling back to Llama 3.2 Vision...'',
        GroqRequest ?m2 k (case r2 of Inl e \<Rightarrow> Some e | Inr v \<Rightarrow> None)]"
      using callGroq_log [OF c1] callGroq_log [OF c2] failed by (simp add: emit_def)
    from new_events_append [OF this] show ?thesis using Inr k by (simp add: groq_layer_def)
  qed
qed

lemma layer4_advance:
  assumes "layer4 scan cfg s = (r, st')"
  shows "from_layer4 scan cfg s r st'"
proof -
  let ?s = "emit (Console ''Attempting scan with Layer 4: OpenRouter'') s"
  obtain y s4 where run: "analyzeWithOpenRouter scan cfg ?s = (y, s4)"
    by (cases "analyzeWithOpenRouter scan cfg ?s")
  show ?thesis
  proof (cases y)
    case (Inr v)
    then have "r = y" "st' = s4" using assms run by (simp_all add: layer4_def)
    then show ?thesis using run Inr by (auto simp: from_layer4_def Let_def)
  next
    case (Inl t)
    from retry_failed_new [OF run [unfolded analyzeWithOpenRouter_def Inl]]
    have tried: "tried_all OpenRouter cfg (new_events ?s s4)" and "\<exists>e. t = Some e" by simp_all
    then have "isl r" "st' = emit (Console ''All layers failed.'') s4"
      using assms run Inl by (auto simp: layer4_def message_of_def Let_def)
    then show ?thesis using run Inl tried by (auto simp: from_layer4_def Let_def)
  qed
qed

lemma layer3_advance:
  assumes "layer3 scan cfg s = (r, st')"
  shows "from_layer3 scan cfg s r st'"
proof -
  let ?s = "emit (Console ''Attempting scan with Layer 3: Groq Vision'') s"
  obtain x s3 where run: "analyzeWithGroq scan cfg ?s = (x, s3)"
    by (cases "analyzeWithGroq scan cfg ?s")
  note g = analyzeWithGroq_run [OF run]
  show ?thesis
  proof (cases x)
    case (Inr v)
    then have "r = x" "st' = s3" using assms run by (simp_all add: layer3_def)
    then show ?thesis using run Inr g by (auto simp: from_layer3_def Let_def)
  next
    case (Inl t)
    then obtain e where e: "t = Some e" using g by blast
    let ?c3 = "''Layer 3 (Groq) failed: '' @ error_text e @ ''. Trying Layer 4 (OpenRouter)...''"
    have "layer4 scan cfg (emit (Console ?c3) s3) = (r, st')"
      using assms run Inl e by (simp add: layer3_def message_of_def)
    from layer4_advance [OF this] show ?thesis using run Inl g
      by (auto simp: from_layer3_def Let_def)
  qed
qed

lemma layer2_advance:
  assumes "layer2 scan cfg s = (r, st')"
  shows "from_layer2 scan cfg s r st'"
proof -
  let ?fn = "scan GeminiAPI ''gemini-2.0-flash-exp''"
  obtain y s2 where run: "withProviderRetry cfg Gemini ?fn 1 s = (y, s2)"
    by (cases "withProviderRetry cfg Gemini ?fn 1 s")
  show ?thesis
  proof (cases y)
    case (Inr v)
    then have "r = y" "st' = s2" using assms run by (simp_all add: layer2_def)
    then show ?thesis using run Inr by (auto simp: from_layer2_def)
  next
    case (Inl t)
    from retry_failed_new [OF run [unfolded Inl]]
    obtain e where tried: "tried_all Gemini cfg (new_events s s2)" and e: "t = Some e" by blast
    let ?c2 = "''Layer 2 (Gemini 2.0) failed: '' @ error_text e @ ''. Trying Layer 3 (Groq)...''"
    have "layer3 scan cfg (emit (Console ?c2) s2) = (r, st')"
      using assms run Inl e by (simp add: layer2_def message_of_def)
    from layer3_advance [OF this] show ?thesis using run Inl tried
      by (auto simp: from_layer2_def)
  qed
qed

lemma analyzeExamPaper_advance:
  assumes "analyzeExamPaper scan cfg modelName s = (r, st')"
  shows "from_layer1 scan cfg modelName s r st'"
proof -
  let ?fn = "scan GeminiAPI modelName"
  obtain y s1 where run: "withProviderRetry cfg Gemini ?fn 1 s = (y, s1)"
    by (cases "withProviderRetry cfg Gemini ?fn 1 s")
  show ?thesis
  proof (cases y)
    case (Inr v)
    then have "r = y" "st' = s1" using assms run by (simp_all add: analyzeExamPaper_def)
    then show ?thesis using run Inr by (auto simp: from_layer1_def)
  next
    case (Inl t)
    from retry_failed_new [OF run [unfolded Inl]]
    obtain e where tried: "tried_all Gemini cfg (new_events s s1)" and e: "t = Some e" by blast
    let ?c1 = "''Layer 1 (Gemini 3) failed: '' @ error_text e @ ''. Trying Layer 2...''"
    have "layer2 scan cfg (emit (Console ?c1) s1) = (r, st')"
      using assms run Inl e by (simp add: analyzeExamPaper_def message_of_def)
    from layer2_advance [OF this] show ?thesis using run Inl tried
      by (auto simp: from_layer1_def)
  qed
qed

section \<open>Runs of refineAcademicAnswer and generateChatTitle\<close>



lemmas refine_eval =
  refineAcademicAnswer_def refine_with_openrouter_def refine_with_gemini_def callOpenRouter_def
  callGemini_def returning_def or_default_def answer_on_def three_keys_def eval_defs

lemma refine_openrouter_serves:
  "refineAcademicAnswer (answer_on OpenRouterAPI) three_keys ''draft'' ''gemini-2.5-pro'' Gemini start =
     (Inr ''answer from google/gemini-2.0-flash-001'',
      \<lparr>world = 1, entropy = (\<lambda>n. n), draws = 0, log = [Invoke OpenRouter ''r'' None]\<rparr>)"
  by (simp add: refine_eval)





lemma fst_returning: "fst (returning f r) = (case fst r of Inl e \<Rightarrow> Inl e | Inr v \<Rightarrow> Inr (f v))"
  by (cases r; cases "fst r") (auto simp: returning_def)

lemma retry_loop_value:
  assumes "fst (fn k (world st)) = Inr v" and "i < maxR"
  shows "fst (retry_loop fn p k n maxR i le st) = Some v"
proof -
  obtain w' where "fn k (world st) = (Inr v, w')" using assms(1) by (cases "fn k (world st)") auto
  then show ?thesis using assms(2) by (simp add: retry_loop.simps [of fn p k n maxR i])
qed

lemma withProviderRetry_constant:
  assumes "provider_keys cfg p \<noteq> []" and "0 < maxR" and "\<forall>k w. fst (fn k w) = Inr v"
  shows "fst (withProviderRetry cfg p fn maxR st) = Inr v"
proof -
  let ?sh = "shuffleArray (entropy st) (draws st) (provider_keys cfg p)"
  have "length (fst ?sh) = length (provider_keys cfg p)"
    by (rule mset_eq_length [OF shuffleArray_mset])
  then obtain k ks where sh: "fst ?sh = k # ks" using assms(1) by (cases "fst ?sh") auto
  let ?st = "st\<lparr>draws := snd ?sh\<rparr>"
  have "fst (retry_loop fn p k (length (fst ?sh)) maxR 0 None ?st) = Some v"
    using assms(2,3) by (intro retry_loop_value) simp_all
  then have "fst (key_loop fn p (length (fst ?sh)) maxR (k # ks) None ?st) = Inr v"
    by (cases "retry_loop fn p k (length (fst ?sh)) maxR 0 None ?st") auto
  then show ?thesis using assms(1) sh by (simp add: withProviderRetry_def Let_def)
qed

lemma three_keys_gemini: "provider_keys three_keys Gemini = [''g'']"
  by (simp add: three_keys_def eval_defs)


lemma retry_loop_source:
  assumes "retry_loop fn p k n maxR i le st = (Some v, le', st')"
  shows "\<exists>w. fn k w = (Inr v, world st') \<and> last (log st') = Invoke p k None"
  using assms
proof (induction fn p k n maxR i le st rule: retry_loop.induct)
  case (1 fn p k n maxR i le st)
  show ?case
  proof (cases "i < maxR")
    case False
    then show ?thesis using "1.prems" by (simp add: retry_loop.simps [of fn p k n maxR i])
  next
    case True
    obtain x w' where x: "fn k (world st) = (x, w')" by (cases "fn k (world st)")
    show ?thesis
    proof (cases x)
      case (Inr u)
      then have "u = v" "st' = emit (Invoke p k None) (st\<lparr>world := w'\<rparr>)"
        using "1.prems" True x by (simp_all add: retry_loop.simps [of fn p k n maxR i])
      then show ?thesis using x Inr by (intro exI [of _ "world st"]) (simp add: emit_def)
    next
      case (Inl err)
      let ?st1 = "emit (Invoke p k (Some err)) (st\<lparr>world := w'\<rparr>)"
      show ?thesis
      proof (cases "\<not> (isQuotaError err \<and> n > 1) \<and> isQuotaError err \<and> i < maxR - 1")
        case False
        then show ?thesis using "1.prems" True x Inl
          by (auto simp: retry_loop.simps [of fn p k n maxR i] Let_def split: if_splits)
      next
        case again: True
        then have "retry_loop fn p k n maxR (i + 1) (Some err) (emit (Delay 500) ?st1) = (Some v, le', st')"
          using "1.prems" True x Inl by (simp add: retry_loop.simps [of fn p k n maxR i] Let_def)
        with "1.IH" [OF True x [symmetric] Inl refl] again show ?thesis by simp
      qed
    qed
  qed
qed

lemma key_loop_source:
  assumes "key_loop fn p n maxR ks le st = (Inr v, st')"
  shows "\<exists>k\<in>set ks. \<exists>w. fn k w = (Inr v, world st') \<and> last (log st') = Invoke p k None"
  using assms
proof (induction ks arbitrary: le st)
  case Nil
  then show ?case by simp
next
  case (Cons k ks)
  obtain res le1 st1 where rl: "retry_loop fn p k n maxR 0 le st = (res, le1, st1)"
    by (cases "retry_loop fn p k n maxR 0 le st") auto
  show ?case
  proof (cases res)
    case None
    then have "key_loop fn p n maxR ks le1 st1 = (Inr v, st')" using Cons.prems rl by simp
    from Cons.IH [OF this] show ?thesis by auto
  next
    case (Some u)
    then have "u = v" "st1 = st'" using Cons.prems rl by simp_all
    then show ?thesis using retry_loop_source [of fn p k n maxR 0 le st v le1 st'] rl Some by auto
  qed
qed

lemma withProviderRetry_source:
  assumes "withProviderRetry cfg p fn maxR st = (Inr v, st')"
  shows "\<exists>k\<in>set (provider_keys cfg p). \<exists>w. fn k w = (Inr v, world st')
           \<and> last (log st') = Invoke p k None"
proof -
  let ?sh = "shuffleArray (entropy st) (draws st) (provider_keys cfg p)"
  have set_eq: "set (fst ?sh) = set (provider_keys cfg p)" by (rule mset_eq_setD [OF shuffleArray_mset])
  have ne: "provider_keys cfg p \<noteq> []" using assms by (auto simp: withProviderRetry_def)
  then have "key_loop fn p (length (fst ?sh)) maxR (fst ?sh) None (st\<lparr>draws := snd ?sh\<rparr>) = (Inr v, st')"
    using assms by (simp add: withProviderRetry_def Let_def)
  from key_loop_source [OF this] show ?thesis unfolding set_eq .
qed

lemma withProviderRetry_some_key_returns:
  assumes "0 < maxR"
    and "\<forall>k\<in>set (provider_keys cfg provider). always_returns fn k \<or> always_throws fn k"
    and "\<exists>k\<in>set (provider_keys cfg provider). always_returns fn k"
  shows "\<exists>v st'. withProviderRetry cfg provider fn maxR st = (Inr v, st')"
proof -
  let ?keys = "provider_keys cfg provider"
  let ?sh = "shuffleArray (entropy st) (draws st) ?keys"
  have set_eq: "set (fst ?sh) = set ?keys" by (rule mset_eq_setD [OF shuffleArray_mset])
  have ne: "?keys \<noteq> []" using assms(3) by auto
  have "\<forall>k\<in>set (fst ?sh). always_returns fn k \<or> always_throws fn k"
    using assms(2) unfolding set_eq by blast
  moreover have "\<exists>k\<in>set (fst ?sh). always_returns fn k" using assms(3) unfolding set_eq .
  ultimately obtain v st' where
    "key_loop fn provider (length (fst ?sh)) maxR (fst ?sh) None (st\<lparr>draws := snd ?sh\<rparr>) = (Inr v, st')"
    using key_loop_failover [OF assms(1), of "fst ?sh" fn provider "length (fst ?sh)" None
        "st\<lparr>draws := snd ?sh\<rparr>"] by blast
  then show ?thesis using ne by (auto simp: withProviderRetry_def Let_def)
qed

lemma returning_source:
  "returning f r = (Inr v, w') \<Longrightarrow> \<exists>a. r = (Inr a, w') \<and> v = f a"
  by (cases r; cases "fst r") (auto simp: returning_def)

lemma title_text_cases:
  "title_text answer = (case answer of None \<Rightarrow> ''New Chat''
      | Some s \<Rightarrow> if trim s = [] then ''New Chat'' else trim s)"
  by (simp add: title_text_def or_default_def split: option.splits)

lemma title_failover_run:
  "withProviderRetry two_keys Gemini
      (\<lambda>apiKey w. returning title_text (title_if_good GeminiAPI ''gemini-2.0-flash-exp'' apiKey w)) 1
      start_in_order =
     (Inr ''Trip plan'',
      \<lparr>world = 2, entropy = (\<lambda>n. 1), draws = 1,
       log = [Invoke Gemini ''bad'' (Some (Error ''rejected bad'')), Invoke Gemini ''good'' None]\<rparr>)"
  by (simp add: withProviderRetry_def two_keys_pool shuffleArray_def start_in_order_def retry_loop.simps
      title_if_good_def returning_def title_text_def or_default_def trim_def is_ws_def
      emit_def isQuotaError_def Error_def js_includes_def Let_def)

lemma title_rejected_run:
  "withProviderRetry two_keys Gemini
      (\<lambda>apiKey w. returning title_text (reject_chat GeminiAPI ''gemini-2.0-flash-exp'' apiKey w)) 1 start =
     (Inl (Some (Error ''rejected bad'')),
      \<lparr>world = 2, entropy = (\<lambda>n. n), draws = 1,
       log = [Invoke Gemini ''good'' (Some (Error ''rejected good'')),
              Invoke Gemini ''bad'' (Some (Error ''rejected bad''))]\<rparr>)"
  by (simp add: withProviderRetry_def two_keys_pool shuffleArray_def start_def retry_loop.simps
      reject_chat_def returning_def emit_def isQuotaError_def Error_def js_includes_def Let_def)


section \<open>Runs of streamChat\<close>

lemma makeRequest_run:
  assumes "create cl model (net t) = ((chunks, ended), w')"
  shows "makeRequest create cl model t =
     ((case ended of None \<Rightarrow> Inr () | Some error \<Rightarrow> Inl (rethrown model error)),
      t\<lparr>net := w', yielded := yielded t @ fragments chunks,
        opened := opened t @ [(cl, model, map_option (rethrown model) ended)]\<rparr>)"
  using assms by (simp add: makeRequest_def Let_def split: option.splits)

lemma makeRequest_opened:
  assumes "makeRequest create cl model t = (x, t1)"
  shows "service t1 = service t
       \<and> opened t1 = opened t @ [(cl, model, case x of Inl e \<Rightarrow> Some e | Inr u \<Rightarrow> None)]"
proof -
  obtain chunks ended w' where c: "create cl model (net t) = ((chunks, ended), w')"
    by (cases "create cl model (net t)") auto
  have "makeRequest create cl model t =
     ((case ended of None \<Rightarrow> Inr () | Some error \<Rightarrow> Inl (rethrown model error)),
      t\<lparr>net := w', yielded := yielded t @ fragments chunks,
        opened := opened t @ [(cl, model, map_option (rethrown model) ended)]\<rparr>)"
    using c by (rule makeRequest_run)
  then show ?thesis using assms by (cases ended) auto
qed

lemma client_at_rotate:
  "client_at (rotateOpenRouterKey svc) j = client_at svc (Suc j)"
  by (simp add: client_at_def rotateOpenRouterKey_def mod_add_left_eq)

lemma getOpenRouterClient_at:
  "openRouterKeys svc \<noteq> [] \<Longrightarrow> getOpenRouterClient svc = Some (client_at svc 0)"
  by (simp add: getOpenRouterClient_def client_at_def)

lemma stream_loop_run:
  assumes "stream_loop create model i le t = (r, t')" and "openRouterKeys (service t) \<noteq> []"
  shows "\<exists>rs. opened t' = opened t @ rs
      \<and> openRouterKeys (service t') = openRouterKeys (service t)
      \<and> length rs \<le> length (openRouterKeys (service t)) - i
      \<and> map fst rs = map (client_at (service t)) [0..<length rs]
      \<and> (case r of
            Inr u \<Rightarrow> rs \<noteq> [] \<and> snd (snd (last rs)) = None
          | Inl e \<Rightarrow> (if rs = [] then e = thrown_after_loop le else snd (snd (last rs)) = Some e))"
  using assms
proof (induction create model i le t arbitrary: r t' rule: stream_loop.induct)
  case (1 create model i le t)
  let ?n = "length (openRouterKeys (service t))"
  show ?case
  proof (cases "i < ?n")
    case False
    then have "r = Inl (thrown_after_loop le)" "t' = t"
      using "1.prems"(1) by (simp_all add: stream_loop.simps [of create model i le t] thrown_after_loop_def)
    then show ?thesis by (intro exI [of _ "[]"]) simp
  next
    case True
    let ?cl = "client_at (service t) 0"
    have cl: "getOpenRouterClient (service t) = Some ?cl"
      using "1.prems"(2) by (rule getOpenRouterClient_at)
    obtain x t1 where mk: "makeRequest create ?cl model t = (x, t1)"
      by (cases "makeRequest create ?cl model t")
    from makeRequest_opened [OF mk] have t1: "service t1 = service t"
      "opened t1 = opened t @ [(?cl, model, case x of Inl e \<Rightarrow> Some e | Inr u \<Rightarrow> None)]" by simp_all
    show ?thesis
    proof (cases x)
      case (Inr u)
      then have "r = Inr ()" "t' = t1"
        using "1.prems"(1) True cl mk by (simp_all add: stream_loop.simps [of create model i le t])
      then show ?thesis using t1 Inr True
        by (intro exI [of _ "[(?cl, model, None)]"]) simp
    next
      case (Inl error)
      show ?thesis
      proof (cases "status error = Some 401")
        case False
        then have "r = Inl error" "t' = t1"
          using "1.prems"(1) True cl mk Inl by (simp_all add: stream_loop.simps [of create model i le t])
        then show ?thesis using t1 Inl True
          by (intro exI [of _ "[(?cl, model, Some error)]"]) simp
      next
        case unauthorized: True
        let ?t2 = "t1\<lparr>service := rotateOpenRouterKey (service t1)\<rparr>"
        have rec: "stream_loop create model (i + 1) (Some error) ?t2 = (r, t')"
          using "1.prems"(1) True cl mk Inl unauthorized
          by (simp add: stream_loop.simps [of create model i le t])
        have keys2: "openRouterKeys (service ?t2) = openRouterKeys (service t)"
          using t1(1) by (simp add: rotateOpenRouterKey_def)
        then have ne2: "openRouterKeys (service ?t2) \<noteq> []" using "1.prems"(2) by simp
        from "1.IH" [OF True cl mk [symmetric] Inl unauthorized rec ne2] keys2
        obtain rs where rs: "opened t' = opened ?t2 @ rs"
          "openRouterKeys (service t') = openRouterKeys (service t)"
          "length rs \<le> ?n - (i + 1)"
          "map fst rs = map (client_at (service ?t2)) [0..<length rs]"
          "case r of
             Inr u \<Rightarrow> rs \<noteq> [] \<and> snd (snd (last rs)) = None
           | Inl e \<Rightarrow> (if rs = [] then e = thrown_after_loop (Some error) else snd (snd (last rs)) = Some e)"
          by auto
        let ?rs = "(?cl, model, Some error) # rs"
        have a: "opened t' = opened t @ ?rs" using rs(1) t1(2) Inl by simp
        have b: "length ?rs \<le> ?n - i" using rs(3) True by simp
        have "map fst rs = map (\<lambda>j. client_at (service t) (Suc j)) [0..<length rs]"
          using rs(4) t1(1) by (simp add: client_at_rotate)
        then have c: "map fst ?rs = map (client_at (service t)) [0..<length ?rs]"
          by (simp add: map_upt_Suc del: upt_Suc)
        have d: "case r of
             Inr u \<Rightarrow> ?rs \<noteq> [] \<and> snd (snd (last ?rs)) = None
           | Inl e \<Rightarrow> (if ?rs = [] then e = thrown_after_loop le else snd (snd (last ?rs)) = Some e)"
          using rs(5) by (auto simp: thrown_after_loop_def split: sum.splits if_splits)
        show ?thesis using a b c d rs(2) by (intro exI [of _ ?rs]) simp
      qed
    qed
  qed
qed


lemma streamChat_openrouter:
  "openrouter_path mode t \<Longrightarrow> streamChat create mode t = stream_loop create (modelToUse mode) 0 None t"
  by (cases mode) (auto simp: openrouter_path_def streamChat_def Let_def)

lemma new_requests_append: "opened t' = opened t @ rs \<Longrightarrow> new_requests t t' = rs"
  by (simp add: new_requests_def)

lemma stream_loop_step:
  assumes "openRouterKeys (service t) \<noteq> []" and "i < length (openRouterKeys (service t))"
    and "create (client_at (service t) 0) model (net t) = ((chunks, ended), w')"
  shows "stream_loop create model i le t =
     (let t1 = t\<lparr>net := w', yielded := yielded t @ fragments chunks,
                  opened := opened t @ [(client_at (service t) 0, model, map_option (rethrown model) ended)]\<rparr>
      in case ended of
           None \<Rightarrow> (Inr (), t1)
         | Some error \<Rightarrow>
             if status (rethrown model error) = Some 401
             then stream_loop create model (i + 1) (Some (rethrown model error))
                    (t1\<lparr>service := rotateOpenRouterKey (service t)\<rparr>)
             else (Inl (rethrown model error), t1))"
  using assms(2) getOpenRouterClient_at [OF assms(1)]
    makeRequest_run [of create "client_at (service t) 0" model t chunks ended w', OF assms(3)]
  by (subst stream_loop.simps) (simp add: Let_def split: option.splits)

lemma rethrown_status:
  "status (rethrown model error) = Some 401 \<longleftrightarrow> status error = Some 401"
  by (simp add: rethrown_def Error_def)

lemma stream_loop_first:
  assumes "openRouterKeys (service t) \<noteq> []" and "i < length (openRouterKeys (service t))"
  shows "\<exists>x rest. opened (snd (stream_loop create model i le t))
           = opened t @ (client_at (service t) 0, model, x) # rest"
proof -
  obtain chunks ended w' where c: "create (client_at (service t) 0) model (net t) = ((chunks, ended), w')"
    by (cases "create (client_at (service t) 0) model (net t)") auto
  let ?t1 = "t\<lparr>net := w', yielded := yielded t @ fragments chunks,
                opened := opened t @ [(client_at (service t) 0, model, map_option (rethrown model) ended)]\<rparr>"
  note step = stream_loop_step [of t i create model chunks ended w' le, OF assms c]
  show ?thesis
  proof (cases ended)
    case None
    then show ?thesis using step by simp
  next
    case (Some error)
    show ?thesis
    proof (cases "status (rethrown model error) = Some 401")
      case False
      then show ?thesis using step Some by simp
    next
      case True
      let ?t2 = "?t1\<lparr>service := rotateOpenRouterKey (service t)\<rparr>"
      obtain r t' where rec: "stream_loop create model (i + 1) (Some (rethrown model error)) ?t2 = (r, t')"
        by (cases "stream_loop create model (i + 1) (Some (rethrown model error)) ?t2")
      have "openRouterKeys (service ?t2) \<noteq> []" using assms(1) by (simp add: rotateOpenRouterKey_def)
      from stream_loop_run [OF rec this] obtain rs where "opened t' = opened ?t2 @ rs" by blast
      then show ?thesis using step Some True rec by (simp add: Let_def)
    qed
  qed
qed

lemma stream_loop_all_unauthorized:
  assumes "\<forall>cl w. \<exists>x. snd (fst (create cl model w)) = Some x \<and> status x = Some 401"
    and "openRouterKeys (service t) \<noteq> []"
  shows "isl (fst (stream_loop create model i le t))
       \<and> length (new_requests t (snd (stream_loop create model i le t)))
           = length (openRouterKeys (service t)) - i"
  using assms
proof (induction create model i le t rule: stream_loop.induct)
  case (1 create model i le t)
  let ?n = "length (openRouterKeys (service t))"
  show ?case
  proof (cases "i < ?n")
    case False
    then show ?thesis by (simp add: stream_loop.simps [of create model i le t] new_requests_def)
  next
    case True
    let ?cl = "client_at (service t) 0"
    obtain chunks ended w' where c: "create ?cl model (net t) = ((chunks, ended), w')"
      by (cases "create ?cl model (net t)") auto
    from "1.prems"(1) obtain x where "snd (fst (create ?cl model (net t))) = Some x" "status x = Some 401"
      by blast
    then have x: "ended = Some x" "status x = Some 401" "rethrown model x = x"
      using c by (simp_all add: rethrown_def)
    let ?t1 = "t\<lparr>net := w', yielded := yielded t @ fragments chunks,
                  opened := opened t @ [(?cl, model, map_option (rethrown model) ended)]\<rparr>"
    let ?t2 = "?t1\<lparr>service := rotateOpenRouterKey (service ?t1)\<rparr>"
    have cl: "getOpenRouterClient (service t) = Some ?cl"
      using "1.prems"(2) by (rule getOpenRouterClient_at)
    have mk: "makeRequest create ?cl model t = (Inl x, ?t1)"
      using makeRequest_run [of create ?cl model t chunks ended w', OF c] x by simp
    have ne2: "openRouterKeys (service ?t2) \<noteq> []"
      using "1.prems"(2) by (simp add: rotateOpenRouterKey_def)
    have n2: "length (openRouterKeys (service ?t2)) = ?n" by (simp add: rotateOpenRouterKey_def)
    note ih = "1.IH" [OF True cl mk [symmetric] refl x(2) "1.prems"(1) ne2]
    have step: "stream_loop create model i le t = stream_loop create model (i + 1) (Some x) ?t2"
      using stream_loop_step [of t i create model chunks ended w' le, OF "1.prems"(2) True c] x
      by (simp add: Let_def)
    obtain r t' where rec: "stream_loop create model (i + 1) (Some x) ?t2 = (r, t')"
      by (cases "stream_loop create model (i + 1) (Some x) ?t2")
    from stream_loop_run [OF rec ne2] obtain rs where rs: "opened t' = opened ?t2 @ rs" by blast
    then have "new_requests ?t2 t' = rs" by (rule new_requests_append)
    then have len: "length rs = ?n - (i + 1)" using ih rec n2 by simp
    have "opened t' = opened t @ ((?cl, model, Some x) # rs)" using rs x by simp
    then have "new_requests t t' = (?cl, model, Some x) # rs" by (rule new_requests_append)
    then show ?thesis using step rec ih len True by simp
  qed
qed

lemma fresh_service:
  "service fresh_turn = \<lparr>groqClient = None, openRouterKeys = [''k1'', ''k2'', ''k3''], currentOpenRouterIndex = 0\<rparr>"
  by (simp add: fresh_turn_def new_ChatService_def trim_def is_ws_def)

lemma fresh_path: "openrouter_path Pro fresh_turn"
  by (simp add: openrouter_path_def fresh_service)

lemma model_pro: "modelToUse Pro = ''openai/gpt-oss-120b''"
  by (simp add: modelToUse_def MODELS_def OPENROUTER_FALLBACKS_def or_default_def)

lemma fresh_clients:
  "client_at (service fresh_turn) 0 = OpenRouterClient ''k1''"
  "client_at (service fresh_turn) 1 = OpenRouterClient ''k2''"
  by (simp_all add: client_at_def fresh_service)

lemma all_unauthorized_run:
  "streamChat (respond (\<lambda>k. Some 401)) Pro fresh_turn =
     (Inl (refused 401),
      \<lparr>service = \<lparr>groqClient = None, openRouterKeys = [''k1'', ''k2'', ''k3''], currentOpenRouterIndex = 0\<rparr>,
       net = 3, yielded = [],
       opened = [(OpenRouterClient ''k1'', ''openai/gpt-oss-120b'', Some (refused 401)),
                 (OpenRouterClient ''k2'', ''openai/gpt-oss-120b'', Some (refused 401)),
                 (OpenRouterClient ''k3'', ''openai/gpt-oss-120b'', Some (refused 401))]\<rparr>)"
  by (simp add: streamChat_def model_pro MODELS_def stream_loop.simps getOpenRouterClient_def
      makeRequest_def respond_def key_of_def refused_def rethrown_def rotateOpenRouterKey_def
      fragments_def fresh_turn_def new_ChatService_def trim_def is_ws_def)


lemma stream_loop_rotations:
  assumes "stream_loop create model i le t = (r, t')" and "openRouterKeys (service t) \<noteq> []"
  shows "\<exists>rs. opened t' = opened t @ rs
      \<and> (\<forall>j. Suc j < length rs \<longrightarrow> unauthorized (rs ! j))
      \<and> service t' = (rotateOpenRouterKey ^^ rotations rs) (service t)"
  using assms
proof (induction create model i le t arbitrary: r t' rule: stream_loop.induct)
  case (1 create model i le t)
  let ?n = "length (openRouterKeys (service t))"
  show ?case
  proof (cases "i < ?n")
    case False
    then have "r = Inl (thrown_after_loop le)" "t' = t"
      using "1.prems"(1) by (simp_all add: stream_loop.simps [of create model i le t] thrown_after_loop_def)
    then show ?thesis by (intro exI [of _ "[]"]) (simp add: rotations_def)
  next
    case True
    let ?cl = "client_at (service t) 0"
    have cl: "getOpenRouterClient (service t) = Some ?cl"
      using "1.prems"(2) by (rule getOpenRouterClient_at)
    obtain x t1 where mk: "makeRequest create ?cl model t = (x, t1)"
      by (cases "makeRequest create ?cl model t")
    from makeRequest_opened [OF mk] have t1: "service t1 = service t"
      "opened t1 = opened t @ [(?cl, model, case x of Inl e \<Rightarrow> Some e | Inr u \<Rightarrow> None)]" by simp_all
    show ?thesis
    proof (cases x)
      case (Inr u)
      then have "r = Inr ()" "t' = t1"
        using "1.prems"(1) True cl mk by (simp_all add: stream_loop.simps [of create model i le t])
      then show ?thesis using t1 Inr
        by (intro exI [of _ "[(?cl, model, None)]"]) (simp add: rotations_def unauthorized_def)
    next
      case (Inl error)
      show ?thesis
      proof (cases "status error = Some 401")
        case False
        then have "r = Inl error" "t' = t1"
          using "1.prems"(1) True cl mk Inl by (simp_all add: stream_loop.simps [of create model i le t])
        then show ?thesis using t1 Inl False
          by (intro exI [of _ "[(?cl, model, Some error)]"]) (simp add: rotations_def unauthorized_def)
      next
        case refused: True
        let ?t2 = "t1\<lparr>service := rotateOpenRouterKey (service t1)\<rparr>"
        have rec: "stream_loop create model (i + 1) (Some error) ?t2 = (r, t')"
          using "1.prems"(1) True cl mk Inl refused
          by (simp add: stream_loop.simps [of create model i le t])
        have ne2: "openRouterKeys (service ?t2) \<noteq> []"
          using t1(1) "1.prems"(2) by (simp add: rotateOpenRouterKey_def)
        from "1.IH" [OF True cl mk [symmetric] Inl refused rec ne2]
        obtain rs where rs: "opened t' = opened ?t2 @ rs"
          "\<forall>j. Suc j < length rs \<longrightarrow> unauthorized (rs ! j)"
          "service t' = (rotateOpenRouterKey ^^ rotations rs) (service ?t2)"
          by auto
        let ?rs = "(?cl, model, Some error) # rs"
        have un: "unauthorized (?cl, model, Some error)" using refused by (simp add: unauthorized_def)
        have a: "opened t' = opened t @ ?rs" using rs(1) t1(2) Inl by simp
        have b: "\<forall>j. Suc j < length ?rs \<longrightarrow> unauthorized (?rs ! j)"
        proof (intro allI impI)
          fix j assume j: "Suc j < length ?rs"
          show "unauthorized (?rs ! j)"
          proof (cases j)
            case 0
            then show ?thesis using un by simp
          next
            case (Suc j')
            then have "Suc j' < length rs" using j by simp
            then show ?thesis using rs(2) Suc by simp
          qed
        qed
        have "rotations ?rs = Suc (rotations rs)" using un by (simp add: rotations_def)
        then have c: "service t' = (rotateOpenRouterKey ^^ rotations ?rs) (service t)"
          using rs(3) t1(1) by (simp add: funpow_swap1)
        show ?thesis using a b c by (intro exI [of _ ?rs]) simp
      qed
    qed
  qed
qed

lemma stream_loop_exhausted:
  "\<not> i < length (openRouterKeys (service t))
     \<Longrightarrow> stream_loop create model i le t = (Inl (thrown_after_loop le), t)"
  by (simp add: stream_loop.simps [of create model i le t] thrown_after_loop_def)


section \<open>Runs of startGeneration\<close>

lemma enumerate_batches:
  "enumerate i (take 3 (drop i xs)) @ enumerate (i + 3) (drop (i + 3) xs) = enumerate i (drop i xs)"
proof -
  have "enumerate i (drop i xs) = enumerate i (take 3 (drop i xs) @ drop 3 (drop i xs))"
    by (simp only: append_take_drop_id)
  also have "\<dots> = enumerate i (take 3 (drop i xs))
      @ enumerate (i + length (take 3 (drop i xs))) (drop (i + 3) xs)"
    by (simp only: enumerate_append_eq drop_drop add.commute)
  also have "enumerate (i + length (take 3 (drop i xs))) (drop (i + 3) xs)
      = enumerate (i + 3) (drop (i + 3) xs)"
    by (cases "i + 3 \<le> length xs") (simp_all add: min_def)
  finally show ?thesis by simp
qed

lemma generation_loop_run:
  "fst (generation_loop pq qs i results fc step) = results @ map (item_result pq) (enumerate i (drop i qs))
   \<and> fst (snd (generation_loop pq qs i results fc step))
       = fc + length (filter (item_failed pq) (enumerate i (drop i qs)))"
proof (induction pq qs i results fc step rule: generation_loop.induct)
  case (1 pq qs i results fc step)
  show ?case
  proof (cases "i < length qs")
    case False
    then show ?thesis by (simp add: generation_loop.simps [of pq qs i])
  next
    case True
    let ?batch = "enumerate i (take 3 (drop i qs))"
    let ?rest = "enumerate (i + 3) (drop (i + 3) qs)"
    have split: "enumerate i (drop i qs) = ?batch @ ?rest"
      by (rule enumerate_batches [symmetric])
    have unfold: "generation_loop pq qs i results fc step =
        generation_loop pq qs (i + 3) (results @ map (item_result pq) ?batch)
          (fc + length (filter (item_failed pq) ?batch)) (min (step + length ?batch) (length qs))"
      using True by (subst generation_loop.simps) (simp add: Let_def)
    show ?thesis unfolding unfold split using "1.IH" [OF True refl refl] by simp
  qed
qed

lemma startGeneration_results:
  "startGeneration pq (Some an) a = a' \<Longrightarrow>
     refinedQuestions a' = map (item_result pq) (enumerate 0 (filter q_enabled (questions an)))
     \<and> appState a' = COMPLETED
     \<and> app_error a' =
         (let failureCount = length (filter (item_failed pq) (enumerate 0 (filter q_enabled (questions an))))
          in if failureCount > 0
             then Some (show_nat failureCount
                    @ '' question(s) failed to generate, but the rest are available below.'')
             else None)"
proof -
  assume run: "startGeneration pq (Some an) a = a'"
  let ?qs = "filter q_enabled (questions an)"
  obtain results fc step where loop: "generation_loop pq ?qs 0 [] 0 0 = (results, fc, step)"
    by (cases "generation_loop pq ?qs 0 [] 0 0") auto
  from generation_loop_run [of pq ?qs 0 "[]" 0 0] loop
  have "results = map (item_result pq) (enumerate 0 ?qs)"
    "fc = length (filter (item_failed pq) (enumerate 0 ?qs))" by simp_all
  then show ?thesis using run loop by (auto simp: startGeneration_def Let_def)
qed


lemma startGeneration_nth:
  assumes "j < length (filter q_enabled (questions an))"
  shows "refinedQuestions (startGeneration pq (Some an) a) ! j =
     (case pq j (filter q_enabled (questions an) ! j) of
        Inr r \<Rightarrow> r
      | Inl err \<Rightarrow> failure_placeholder (filter q_enabled (questions an) ! j))"
  using startGeneration_results [OF refl, of pq an a] assms
  by (simp add: nth_enumerate_eq item_result_def split: sum.splits)

lemma five_enabled:
  "filter q_enabled (questions five_questions)
     = [question ''1'' True, question ''2'' True, question ''3'' True, question ''4'' True,
        question ''5'' True]"
  by (simp add: five_questions_def question_def)


section \<open>Results\<close>

text \<open>
  C1. When the key pool of the provider holds no credential, withProviderRetry throws
  the error "No API keys available for provider: <provider>" at once: the operation is
  never invoked, so the state (world, log of invocations, entropy consumed) is unchanged.
\<close>

theorem withProviderRetry_no_keys:
  "provider_keys cfg provider = [] \<Longrightarrow>
     withProviderRetry cfg provider fn maxRetriesPerKey st =
       (Inl (Some (Error (''No API keys available for provider: '' @ provider_name provider))), st)"
  by (simp add: withProviderRetry_def)

theorem withProviderRetry_no_keys_witness:
  "provider_keys (browser_config (Some '' , '') None None) Gemini = [] \<and>
   withProviderRetry (browser_config (Some '' , '') None None) Gemini echo_key 1 start =
     (Inl (Some (Error ''No API keys available for provider: gemini'')), start)"
  using withProviderRetry_no_keys [of "browser_config (Some '' , '') None None" Gemini echo_key 1 start]
  by (simp add: provider_keys_def getGeminiKeys_def browser_config_def js_or_def truthy_def
      getAllKeys_def trim_def is_ws_def provider_name_def)





text \<open>
  C3. With a non-empty pool, a positive retry budget and an operation that throws on
  every attempt, withProviderRetry throws the error of the last attempt it made: the
  last error recorded in the events of the run.
\<close>

theorem withProviderRetry_throws_last_error:
  assumes "provider_keys cfg provider \<noteq> []" and "0 < maxRetriesPerKey"
    and "\<forall>k\<in>set (provider_keys cfg provider). always_throws fn k"
  shows "\<exists>st' evs. withProviderRetry cfg provider fn maxRetriesPerKey st
             = (Inl (Some (last (errors_seen provider evs))), st')
           \<and> log st' = log st @ evs \<and> errors_seen provider evs \<noteq> []"
proof -
  obtain r st' where run: "withProviderRetry cfg provider fn maxRetriesPerKey st = (r, st')"
    by (cases "withProviderRetry cfg provider fn maxRetriesPerKey st")
  from withProviderRetry_all_throw [OF assms(3), of maxRetriesPerKey st] run
  obtain t where "r = Inl t" by auto
  with run withProviderRetry_throws [OF assms(1,2)] show ?thesis by blast
qed

theorem withProviderRetry_throws_last_error_witness:
  "provider_keys two_keys Gemini \<noteq> [] \<and> 0 < (1::nat)
   \<and> provider_keys two_keys Gemini = [''bad'', ''good'']
   \<and> always_throws fail_with_key ''bad'' \<and> always_throws fail_with_key ''good''
   \<and> (\<exists>st' evs. withProviderRetry two_keys Gemini fail_with_key 1 start
           = (Inl (Some (last (errors_seen Gemini evs))), st')
         \<and> log st' = log start @ evs \<and> errors_seen Gemini evs \<noteq> [])
   \<and> fst (withProviderRetry two_keys Gemini fail_with_key 1 start) = Inl (Some (Error ''rejected bad''))
   \<and> errors_seen Gemini (log (snd (withProviderRetry two_keys Gemini fail_with_key 1 start)))
       = [Error ''rejected good'', Error ''rejected bad'']"
proof -
  have a: "provider_keys two_keys Gemini \<noteq> []" by (simp add: two_keys_pool)
  have b: "0 < (1::nat)" by simp
  have c: "\<forall>k\<in>set (provider_keys two_keys Gemini). always_throws fail_with_key k"
    by (simp add: always_throws_def fail_with_key_def)
  have d: "fst (withProviderRetry two_keys Gemini fail_with_key 1 start) = Inl (Some (Error ''rejected bad''))"
    using fail_run by simp
  have e: "errors_seen Gemini (log (snd (withProviderRetry two_keys Gemini fail_with_key 1 start)))
       = [Error ''rejected good'', Error ''rejected bad'']"
    using fail_run by simp
  have f: "always_throws fail_with_key ''bad''" "always_throws fail_with_key ''good''"
    by (simp_all add: always_throws_def fail_with_key_def)
  show ?thesis
    using withProviderRetry_throws_last_error [OF a b c, of start] a b d e f two_keys_pool
    by blast
qed

text \<open>
  C4. getAllKeys splits on commas and newlines, trims each entry and drops the empty
  ones (lemmas \<open>getAllKeys_example\<close>, \<open>getAllKeys_absent\<close>, \<open>getAllKeys_blank\<close>,
  \<open>getAllKeys_entries\<close>). The ChatService constructor splits on commas only: given two
  keys separated by a newline, getAllKeys gives the two keys and the constructor gives
  one entry that holds both and the newline between them.
\<close>

theorem credential_parsing_newline:
  "getAllKeys (Some ''k1\<newline>k2'') = [''k1'', ''k2'']
   \<and> openRouterKeys (new_ChatService None (Some ''k1\<newline>k2'')) = [''k1\<newline>k2'']"
  by (simp add: getAllKeys_def new_ChatService_def trim_def is_ws_def)


text \<open>
  C5. When analyzeExamPaper throws, that is when all four layers have failed, the error
  is "Scan failed after 4 types of fallback. Last error: " followed by the message of the
  error the fourth layer threw: the error withProviderRetry threw for OpenRouter (the
  last error of an OpenRouter invocation, or the error about the empty pool).
\<close>

theorem analyzeExamPaper_terminal_error:
  assumes "analyzeExamPaper scan cfg modelName st = (Inl e, st')"
  shows "e = Some (Error (''Scan failed after 4 types of fallback. Last error: ''
                     @ error_text (thrown_by_retry OpenRouter cfg (new_events st st'))))"
proof -
  from analyzeExamPaper_failed [OF assms] obtain l1 c1 l2 c2 l3 c3 l4 where s:
    "log st' = log st @ l1 @ Console c1 # l2
                   @ Console c2 # Console ''Attempting scan with Layer 3: Groq Vision'' # l3
                   @ Console c3 # Console ''Attempting scan with Layer 4: OpenRouter'' # l4
                   @ [Console ''All layers failed.'']"
    "tried_all Gemini cfg l1" "tried_all Gemini cfg l2" "groq_layer cfg l3" "tried_all OpenRouter cfg l4"
    "e = Some (Error (''Scan failed after 4 types of fallback. Last error: ''
                               @ error_text (thrown_by_retry OpenRouter cfg l4)))" by blast
  have "errors_seen OpenRouter l1 = []" "errors_seen OpenRouter l2 = []"
    using errors_seen_other [OF s(2), of OpenRouter] errors_seen_other [OF s(3), of OpenRouter]
    by simp_all
  moreover have "errors_seen OpenRouter l3 = []" using s(4) by (simp add: groq_layer_def)
  ultimately have "errors_seen OpenRouter (new_events st st') = errors_seen OpenRouter l4"
    using s(1) by (simp add: new_events_def)
  then have "thrown_by_retry OpenRouter cfg (new_events st st') = thrown_by_retry OpenRouter cfg l4"
    by (simp add: thrown_by_retry_def)
  then show ?thesis using s(6) by simp
qed


theorem analyzeExamPaper_terminal_error_witness:
  "analyzeExamPaper reject_all three_keys ''gemini-3-flash-preview'' start =
     (Inl (Some (Error ''Scan failed after 4 types of fallback. Last error: rejected r'')),
      three_keys_failed)
   \<and> Some (Error ''Scan failed after 4 types of fallback. Last error: rejected r'') =
       Some (Error (''Scan failed after 4 types of fallback. Last error: ''
               @ error_text (thrown_by_retry OpenRouter three_keys (new_events start three_keys_failed))))
   \<and> errors_seen Gemini (log three_keys_failed) = [Error ''rejected g'', Error ''rejected g'']
   \<and> errors_seen OpenRouter (log three_keys_failed) = [Error ''rejected r'']"
  using analyzeExamPaper_terminal_error [OF three_keys_run] three_keys_run
  by (simp add: three_keys_failed_def)


text \<open>
  C6, as amended. In every run of analyzeExamPaper the chain advances past layer 1,
  layer 2 and layer 4 only after withProviderRetry has tried every key of the layer's
  provider (Gemini, Gemini, OpenRouter), and a layer that returns ends the chain.
  Layer 3 invokes no pool key: whether it returns or throws, it has sent at most two
  requests, each with the one Groq credential as configured. When all four layers have
  failed, the log consists of the events of layer 1, of layer 2, of layer 3 and of
  layer 4, in this order and separated by the console messages of the chain.
\<close>

theorem analyzeExamPaper_layers:
  assumes "analyzeExamPaper scan cfg modelName st = (r, st')"
  shows "from_layer1 scan cfg modelName st r st'
    \<and> (isl r \<longrightarrow>
        (\<exists>l1 c1 l2 c2 l3 c3 l4.
           log st' = log st @ l1 @ Console c1 # l2
                   @ Console c2 # Console ''Attempting scan with Layer 3: Groq Vision'' # l3
                   @ Console c3 # Console ''Attempting scan with Layer 4: OpenRouter'' # l4
                   @ [Console ''All layers failed.'']
           \<and> tried_all Gemini cfg l1 \<and> tried_all Gemini cfg l2
           \<and> groq_layer cfg l3 \<and> tried_all OpenRouter cfg l4))"
proof (intro conjI impI)
  show "from_layer1 scan cfg modelName st r st'"
    using assms by (rule analyzeExamPaper_advance)
next
  assume "isl r"
  then obtain e where "r = Inl e" by (cases r) auto
  from analyzeExamPaper_failed [OF assms [unfolded this]]
  show "\<exists>l1 c1 l2 c2 l3 c3 l4.
           log st' = log st @ l1 @ Console c1 # l2
                   @ Console c2 # Console ''Attempting scan with Layer 3: Groq Vision'' # l3
                   @ Console c3 # Console ''Attempting scan with Layer 4: OpenRouter'' # l4
                   @ [Console ''All layers failed.'']
           \<and> tried_all Gemini cfg l1 \<and> tried_all Gemini cfg l2
           \<and> groq_layer cfg l3 \<and> tried_all OpenRouter cfg l4"
    by blast
qed

theorem analyzeExamPaper_layers_witness:
  "analyzeExamPaper reject_all three_keys ''gemini-3-flash-preview'' start =
     (Inl (Some (Error ''Scan failed after 4 types of fallback. Last error: rejected r'')),
      three_keys_failed)
   \<and> from_layer1 reject_all three_keys ''gemini-3-flash-preview'' start
        (Inl (Some (Error ''Scan failed after 4 types of fallback. Last error: rejected r'')))
        three_keys_failed
   \<and> (\<exists>l1 c1 l2 c2 l3 c3 l4.
           log three_keys_failed = log start @ l1 @ Console c1 # l2
                   @ Console c2 # Console ''Attempting scan with Layer 3: Groq Vision'' # l3
                   @ Console c3 # Console ''Attempting scan with Layer 4: OpenRouter'' # l4
                   @ [Console ''All layers failed.'']
           \<and> tried_all Gemini three_keys l1 \<and> tried_all Gemini three_keys l2
           \<and> groq_layer three_keys l3 \<and> tried_all OpenRouter three_keys l4)"
  using analyzeExamPaper_layers [OF three_keys_run] three_keys_run by simp

text \<open>
  C6, as stated, fails: with the Groq value "g1,g2" the configured keys are g1 and g2,
  and the Groq layer sends the undivided value twice and tries neither.
\<close>

theorem groq_layer_does_not_rotate:
  "getAllKeys (getGroqApiKey groq_pair) = [''g1'', ''g2'']
   \<and> groq_credentials (log (snd (analyzeExamPaper reject_all groq_pair ''gemini-3-flash-preview'' start)))
       = [''g1,g2'', ''g1,g2'']
   \<and> \<not> spec_groq_link_rotates groq_pair
         (log (snd (analyzeExamPaper reject_all groq_pair ''gemini-3-flash-preview'' start)))"
  unfolding groq_pair_run spec_groq_link_rotates_def
  by (simp add: groq_pair_def getGroqApiKey_def browser_config_def js_or_def truthy_def
      getAllKeys_def trim_def is_ws_def)






text \<open>
  C10. generateChatTitle always returns: (1) it never throws; (2) for an empty message
  list it returns "New Chat" and leaves the state as it was, so no provider is invoked;
  (3) when the provider call throws for every key of the pool (or the pool is empty) it
  returns "New Chat"; (4) when every key answers the same text, it returns that text
  trimmed, or "New Chat" when the text is absent or trims to the empty string;
  (5) whenever the retried call returns, after whatever failures on other keys,
  generateChatTitle returns its value and state, and that value is the trimmed text
  (or "New Chat" when absent or blank) of the answer the last invocation received, made
  with a key of the pool; (6) whenever the retried call throws, "New Chat" is returned
  and the failure is written to the console; (7) when each key of the pool either always
  answers its own text or always throws, and some key answers, the title is the trimmed
  text of a key that answers.
\<close>

theorem generateChatTitle_never_throws:
  "(\<exists>t. fst (generateChatTitle chat cfg messages provider st) = Inr t)
   \<and> (messages = [] \<longrightarrow> generateChatTitle chat cfg messages provider st = (Inr ''New Chat'', st))
   \<and> (messages \<noteq> []
        \<and> (\<forall>k\<in>set (provider_keys cfg provider). \<forall>w. isl (fst (chat GeminiAPI ''gemini-2.0-flash-exp'' k w)))
      \<longrightarrow> fst (generateChatTitle chat cfg messages provider st) = Inr ''New Chat'')
   \<and> (messages \<noteq> [] \<and> provider_keys cfg provider \<noteq> []
        \<and> (\<forall>k w. fst (chat GeminiAPI ''gemini-2.0-flash-exp'' k w) = Inr answer)
      \<longrightarrow> fst (generateChatTitle chat cfg messages provider st)
            = Inr (case answer of
                     None \<Rightarrow> ''New Chat''
                   | Some s \<Rightarrow> if trim s = [] then ''New Chat'' else trim s))
   \<and> (messages \<noteq> []
        \<and> withProviderRetry cfg provider
            (\<lambda>apiKey w. returning title_text (chat GeminiAPI ''gemini-2.0-flash-exp'' apiKey w)) 1 st
          = (Inr v, st1)
      \<longrightarrow> generateChatTitle chat cfg messages provider st = (Inr v, st1)
        \<and> (\<exists>k\<in>set (provider_keys cfg provider). \<exists>w reply.
              chat GeminiAPI ''gemini-2.0-flash-exp'' k w = (Inr reply, world st1)
              \<and> last (log st1) = Invoke provider k None
              \<and> v = (case reply of
                       None \<Rightarrow> ''New Chat''
                     | Some s \<Rightarrow> if trim s = [] then ''New Chat'' else trim s)))
   \<and> (messages \<noteq> []
        \<and> withProviderRetry cfg provider
            (\<lambda>apiKey w. returning title_text (chat GeminiAPI ''gemini-2.0-flash-exp'' apiKey w)) 1 st
          = (Inl e, st2)
      \<longrightarrow> generateChatTitle chat cfg messages provider st
            = (Inr ''New Chat'', emit (Console ''Title generation failed, using default'') st2))
   \<and> (messages \<noteq> []
        \<and> (\<forall>k\<in>set (provider_keys cfg provider).
              (\<forall>w. fst (chat GeminiAPI ''gemini-2.0-flash-exp'' k w) = Inr (reply_of k))
              \<or> (\<forall>w. isl (fst (chat GeminiAPI ''gemini-2.0-flash-exp'' k w))))
        \<and> (\<exists>k\<in>set (provider_keys cfg provider).
              \<forall>w. fst (chat GeminiAPI ''gemini-2.0-flash-exp'' k w) = Inr (reply_of k))
      \<longrightarrow> (\<exists>k\<in>set (provider_keys cfg provider).
              (\<forall>w. fst (chat GeminiAPI ''gemini-2.0-flash-exp'' k w) = Inr (reply_of k))
              \<and> fst (generateChatTitle chat cfg messages provider st)
                  = Inr (case reply_of k of
                           None \<Rightarrow> ''New Chat''
                         | Some s \<Rightarrow> if trim s = [] then ''New Chat'' else trim s)))"
proof -
  let ?model = "''gemini-2.0-flash-exp''"
  let ?fn = "\<lambda>apiKey w. returning title_text (chat GeminiAPI ?model apiKey w)"
  let ?keys = "provider_keys cfg provider"
  have total: "\<exists>t. fst (generateChatTitle chat cfg messages provider st) = Inr t"
    by (cases "title_attempt chat cfg provider st"; cases "fst (title_attempt chat cfg provider st)")
      (auto simp: generateChatTitle_def)
  have empty: "messages = [] \<Longrightarrow> generateChatTitle chat cfg messages provider st = (Inr ''New Chat'', st)"
    by (simp add: generateChatTitle_def)
  have fails: "fst (generateChatTitle chat cfg messages provider st) = Inr ''New Chat''"
    if "messages \<noteq> []"
      and "\<forall>k\<in>set ?keys. \<forall>w. isl (fst (chat GeminiAPI ?model k w))"
  proof -
    have "\<forall>k\<in>set ?keys. always_throws ?fn k"
    proof (intro ballI)
      fix k assume k: "k \<in> set ?keys"
      have "isl (fst (?fn k w))" for w
      proof -
        have "isl (fst (chat GeminiAPI ?model k w))" using that(2) k by blast
        then show ?thesis
          by (cases "fst (chat GeminiAPI ?model k w)") (simp_all add: fst_returning)
      qed
      then show "always_throws ?fn k" by (simp add: always_throws_def)
    qed
    from withProviderRetry_all_throw [OF this, of 1 st]
    obtain t where "fst (title_attempt chat cfg provider st) = Inl t"
      by (auto simp: title_attempt_def)
    then show ?thesis using that(1)
      by (cases "title_attempt chat cfg provider st") (auto simp: generateChatTitle_def)
  qed
  have answers: "fst (generateChatTitle chat cfg messages provider st)
            = Inr (case answer of
                     None \<Rightarrow> ''New Chat''
                   | Some s \<Rightarrow> if trim s = [] then ''New Chat'' else trim s)"
    if "messages \<noteq> []" and "?keys \<noteq> []"
      and "\<forall>k w. fst (chat GeminiAPI ?model k w) = Inr answer"
  proof -
    have "\<forall>k w. fst (?fn k w) = Inr (title_text answer)"
      using that(3) by (simp add: fst_returning)
    from withProviderRetry_constant [OF that(2) zero_less_one this, of st]
    have "fst (title_attempt chat cfg provider st) = Inr (title_text answer)"
      by (simp add: title_attempt_def)
    then have "fst (generateChatTitle chat cfg messages provider st) = Inr (title_text answer)"
      using that(1) by (cases "title_attempt chat cfg provider st") (auto simp: generateChatTitle_def)
    then show ?thesis by (simp add: title_text_cases)
  qed
  have source: "\<exists>k\<in>set ?keys. \<exists>w reply.
              chat GeminiAPI ?model k w = (Inr reply, world s)
              \<and> last (log s) = Invoke provider k None
              \<and> u = (case reply of
                       None \<Rightarrow> ''New Chat''
                     | Some s \<Rightarrow> if trim s = [] then ''New Chat'' else trim s)"
    if run: "withProviderRetry cfg provider ?fn 1 st = (Inr u, s)" for u s
  proof -
    from withProviderRetry_source [OF run] obtain k w where k: "k \<in> set ?keys"
      "returning title_text (chat GeminiAPI ?model k w) = (Inr u, world s)"
      "last (log s) = Invoke provider k None" by blast
    from returning_source [OF k(2)] obtain a where
      "chat GeminiAPI ?model k w = (Inr a, world s)" "u = title_text a" by blast
    then show ?thesis using k(1,3) unfolding title_text_cases by blast
  qed
  have succeeds: "generateChatTitle chat cfg messages provider st = (Inr u, s)"
    if "messages \<noteq> []" and "withProviderRetry cfg provider ?fn 1 st = (Inr u, s)" for u s
    using that by (simp add: generateChatTitle_def title_attempt_def)
  have defaults: "generateChatTitle chat cfg messages provider st
            = (Inr ''New Chat'', emit (Console ''Title generation failed, using default'') st2)"
    if "messages \<noteq> []" and "withProviderRetry cfg provider ?fn 1 st = (Inl e, st2)"
    using that by (simp add: generateChatTitle_def title_attempt_def)
  have failover: "\<exists>k\<in>set ?keys.
              (\<forall>w. fst (chat GeminiAPI ?model k w) = Inr (reply_of k))
              \<and> fst (generateChatTitle chat cfg messages provider st)
                  = Inr (case reply_of k of
                           None \<Rightarrow> ''New Chat''
                         | Some s \<Rightarrow> if trim s = [] then ''New Chat'' else trim s)"
    if msgs: "messages \<noteq> []"
      and each: "\<forall>k\<in>set ?keys.
              (\<forall>w. fst (chat GeminiAPI ?model k w) = Inr (reply_of k))
              \<or> (\<forall>w. isl (fst (chat GeminiAPI ?model k w)))"
      and some: "\<exists>k\<in>set ?keys. \<forall>w. fst (chat GeminiAPI ?model k w) = Inr (reply_of k)"
  proof -
    have ret: "always_returns ?fn k" if "\<forall>w. fst (chat GeminiAPI ?model k w) = Inr (reply_of k)" for k
      using that by (simp add: always_returns_def fst_returning)
    have thr: "always_throws ?fn k" if "\<forall>w. isl (fst (chat GeminiAPI ?model k w))" for k
      unfolding always_throws_def
    proof
      fix w
      have "isl (fst (chat GeminiAPI ?model k w))" using that by blast
      then show "isl (fst (?fn k w))"
        by (cases "fst (chat GeminiAPI ?model k w)") (simp_all add: fst_returning)
    qed
    have "\<forall>k\<in>set ?keys. always_returns ?fn k \<or> always_throws ?fn k" using each ret thr by blast
    moreover have "\<exists>k\<in>set ?keys. always_returns ?fn k" using some ret by blast
    ultimately obtain u s where run: "withProviderRetry cfg provider ?fn 1 st = (Inr u, s)"
      using withProviderRetry_some_key_returns [OF zero_less_one, of cfg provider ?fn st] by blast
    from source [OF run] obtain k w reply where k: "k \<in> set ?keys"
      "chat GeminiAPI ?model k w = (Inr reply, world s)"
      "u = (case reply of None \<Rightarrow> ''New Chat'' | Some s \<Rightarrow> if trim s = [] then ''New Chat'' else trim s)"
      by blast
    have "\<not> isl (fst (chat GeminiAPI ?model k w))" using k(2) by simp
    then have good: "\<forall>w. fst (chat GeminiAPI ?model k w) = Inr (reply_of k)" using each k(1) by blast
    then have "reply = reply_of k" using k(2) by (metis fst_conv sum.inject(2))
    moreover have "fst (generateChatTitle chat cfg messages provider st) = Inr u"
      using succeeds [OF msgs run] by simp
    ultimately show ?thesis using k(1,3) good by blast
  qed
  have general: "generateChatTitle chat cfg messages provider st = (Inr v, st1)
        \<and> (\<exists>k\<in>set ?keys. \<exists>w reply.
              chat GeminiAPI ?model k w = (Inr reply, world st1)
              \<and> last (log st1) = Invoke provider k None
              \<and> v = (case reply of
                       None \<Rightarrow> ''New Chat''
                     | Some s \<Rightarrow> if trim s = [] then ''New Chat'' else trim s))"
    if "messages \<noteq> []" and "withProviderRetry cfg provider ?fn 1 st = (Inr v, st1)"
    using succeeds [OF that] source [OF that(2)] by blast
  show ?thesis
    apply (intro conjI impI)
    subgoal by (rule total)
    subgoal by (rule empty)
    subgoal using fails by blast
    subgoal using answers by blast
    subgoal using general by blast
    subgoal using general by blast
    subgoal using defaults by blast
    subgoal using failover by blast
    done
qed


theorem generateChatTitle_never_throws_witness:
  "(generateChatTitle reject_chat three_keys [] Gemini start = (Inr ''New Chat'', start))
   \<and> (\<exists>t. fst (generateChatTitle reject_chat three_keys [(''user'', ''hello'')] Gemini start) = Inr t)
   \<and> provider_keys three_keys Gemini = [''g'']
   \<and> (\<forall>w. isl (fst (reject_chat GeminiAPI ''gemini-2.0-flash-exp'' ''g'' w)))
   \<and> fst (generateChatTitle reject_chat three_keys [(''user'', ''hello'')] Gemini start) = Inr ''New Chat''
   \<and> (\<forall>k w. fst (say (Some ''  Trip plan '') GeminiAPI ''gemini-2.0-flash-exp'' k w) = Inr (Some ''  Trip plan ''))
   \<and> fst (generateChatTitle (say (Some ''  Trip plan '')) three_keys [(''user'', ''hello'')] Gemini start)
       = Inr ''Trip plan''
   \<and> fst (generateChatTitle (say (Some ''   '')) three_keys [(''user'', ''hello'')] Gemini start)
       = Inr ''New Chat''
   \<and> fst (generateChatTitle (say None) three_keys [(''user'', ''hello'')] Gemini start) = Inr ''New Chat''
   \<and> provider_keys two_keys Gemini = [''bad'', ''good'']
   \<and> (\<forall>w. isl (fst (title_if_good GeminiAPI ''gemini-2.0-flash-exp'' ''bad'' w)))
   \<and> (\<forall>w. fst (title_if_good GeminiAPI ''gemini-2.0-flash-exp'' ''good'' w) = Inr (Some ''  Trip plan ''))
   \<and> fst (generateChatTitle title_if_good two_keys [(''user'', ''hello'')] Gemini start) = Inr ''Trip plan''
   \<and> withProviderRetry two_keys Gemini
        (\<lambda>apiKey w. returning title_text (title_if_good GeminiAPI ''gemini-2.0-flash-exp'' apiKey w)) 1
        start_in_order
       = (Inr ''Trip plan'',
          \<lparr>world = 2, entropy = (\<lambda>n. 1), draws = 1,
           log = [Invoke Gemini ''bad'' (Some (Error ''rejected bad'')), Invoke Gemini ''good'' None]\<rparr>)
   \<and> generateChatTitle title_if_good two_keys [(''user'', ''hello'')] Gemini start_in_order
       = (Inr ''Trip plan'',
          \<lparr>world = 2, entropy = (\<lambda>n. 1), draws = 1,
           log = [Invoke Gemini ''bad'' (Some (Error ''rejected bad'')), Invoke Gemini ''good'' None]\<rparr>)
   \<and> withProviderRetry two_keys Gemini
        (\<lambda>apiKey w. returning title_text (reject_chat GeminiAPI ''gemini-2.0-flash-exp'' apiKey w)) 1 start
       = (Inl (Some (Error ''rejected bad'')),
          \<lparr>world = 2, entropy = (\<lambda>n. n), draws = 1,
           log = [Invoke Gemini ''good'' (Some (Error ''rejected good'')),
                  Invoke Gemini ''bad'' (Some (Error ''rejected bad''))]\<rparr>)
   \<and> generateChatTitle reject_chat two_keys [(''user'', ''hello'')] Gemini start
       = (Inr ''New Chat'',
          \<lparr>world = 2, entropy = (\<lambda>n. n), draws = 1,
           log = [Invoke Gemini ''good'' (Some (Error ''rejected good'')),
                  Invoke Gemini ''bad'' (Some (Error ''rejected bad'')),
                  Console ''Title generation failed, using default'']\<rparr>)"
proof -
  let ?msgs = "[(''user'', ''hello'')]"
  let ?served = "\<lparr>world = 2, entropy = (\<lambda>n. 1), draws = 1,
           log = [Invoke Gemini ''bad'' (Some (Error ''rejected bad'')), Invoke Gemini ''good'' None]\<rparr> :: nat sys"
  let ?failed = "\<lparr>world = 2, entropy = (\<lambda>n. n), draws = 1,
           log = [Invoke Gemini ''good'' (Some (Error ''rejected good'')),
                  Invoke Gemini ''bad'' (Some (Error ''rejected bad''))]\<rparr> :: nat sys"
  note none = generateChatTitle_never_throws [of reject_chat three_keys "[]" Gemini start None]
  note rejected = generateChatTitle_never_throws [of reject_chat three_keys ?msgs Gemini start None]
  note titled = generateChatTitle_never_throws [of "say (Some ''  Trip plan '')" three_keys ?msgs Gemini start
      "Some ''  Trip plan ''"]
  note blank = generateChatTitle_never_throws [of "say (Some ''   '')" three_keys ?msgs Gemini start
      "Some ''   ''"]
  note absent = generateChatTitle_never_throws [of "say None" three_keys ?msgs Gemini start None]
  note failover = generateChatTitle_never_throws [where chat = title_if_good and cfg = two_keys
      and messages = ?msgs and provider = Gemini and st = start and reply_of = "\<lambda>k. Some ''  Trip plan ''"]
  note served = generateChatTitle_never_throws [where chat = title_if_good and cfg = two_keys
      and messages = ?msgs and provider = Gemini and st = start_in_order and v = "''Trip plan''"
      and ?st1.0 = ?served]
  note defaulted = generateChatTitle_never_throws [where chat = reject_chat and cfg = two_keys
      and messages = ?msgs and provider = Gemini and st = start and e = "Some (Error ''rejected bad'')"
      and ?st2.0 = ?failed]
  have a: "generateChatTitle reject_chat three_keys [] Gemini start = (Inr ''New Chat'', start)"
    using none by blast
  have b: "\<exists>t. fst (generateChatTitle reject_chat three_keys ?msgs Gemini start) = Inr t"
    using rejected by blast
  have c: "\<forall>w. isl (fst (reject_chat GeminiAPI ''gemini-2.0-flash-exp'' ''g'' w))"
    by (simp add: reject_chat_def)
  have d: "fst (generateChatTitle reject_chat three_keys ?msgs Gemini start) = Inr ''New Chat''"
    using rejected c by (simp add: three_keys_gemini)
  have e: "fst (say t GeminiAPI ''gemini-2.0-flash-exp'' k w) = Inr t" for t k w
    by (simp add: say_def)
  have f: "fst (generateChatTitle (say (Some ''  Trip plan '')) three_keys ?msgs Gemini start) = Inr ''Trip plan''"
    using titled e by (simp add: three_keys_gemini trim_def is_ws_def)
  have g: "fst (generateChatTitle (say (Some ''   '')) three_keys ?msgs Gemini start) = Inr ''New Chat''"
    using blank e by (simp add: three_keys_gemini trim_def is_ws_def)
  have h: "fst (generateChatTitle (say None) three_keys ?msgs Gemini start) = Inr ''New Chat''"
    using absent e by (simp add: three_keys_gemini)
  have i1: "\<forall>w. isl (fst (title_if_good GeminiAPI ''gemini-2.0-flash-exp'' ''bad'' w))"
    by (simp add: title_if_good_def)
  have i2: "\<forall>w. fst (title_if_good GeminiAPI ''gemini-2.0-flash-exp'' ''good'' w) = Inr (Some ''  Trip plan '')"
    by (simp add: title_if_good_def)
  have i3: "\<forall>k\<in>set (provider_keys two_keys Gemini).
      (\<forall>w. fst (title_if_good GeminiAPI ''gemini-2.0-flash-exp'' k w) = Inr (Some ''  Trip plan ''))
      \<or> (\<forall>w. isl (fst (title_if_good GeminiAPI ''gemini-2.0-flash-exp'' k w)))"
    using i1 i2 by (simp add: two_keys_pool)
  have i4: "\<exists>k\<in>set (provider_keys two_keys Gemini).
      \<forall>w. fst (title_if_good GeminiAPI ''gemini-2.0-flash-exp'' k w) = Inr (Some ''  Trip plan '')"
    using i2 by (simp add: two_keys_pool)
  have msgs: "?msgs \<noteq> []" by simp
  have i: "fst (generateChatTitle title_if_good two_keys ?msgs Gemini start) = Inr ''Trip plan''"
  proof -
    have "\<exists>k\<in>set (provider_keys two_keys Gemini).
        (\<forall>w. fst (title_if_good GeminiAPI ''gemini-2.0-flash-exp'' k w) = Inr (Some ''  Trip plan ''))
        \<and> fst (generateChatTitle title_if_good two_keys ?msgs Gemini start)
            = Inr (case Some ''  Trip plan '' of
                     None \<Rightarrow> ''New Chat''
                   | Some s \<Rightarrow> if trim s = [] then ''New Chat'' else trim s)"
      using failover msgs i3 i4 by blast
    then show ?thesis by (auto simp: trim_def is_ws_def)
  qed
  have j: "generateChatTitle title_if_good two_keys ?msgs Gemini start_in_order = (Inr ''Trip plan'', ?served)"
    using served msgs title_failover_run by blast
  have k: "generateChatTitle reject_chat two_keys ?msgs Gemini start
      = (Inr ''New Chat'', emit (Console ''Title generation failed, using default'') ?failed)"
    using defaulted msgs title_rejected_run by blast
  then have k': "generateChatTitle reject_chat two_keys ?msgs Gemini start
       = (Inr ''New Chat'',
          \<lparr>world = 2, entropy = (\<lambda>n. n), draws = 1,
           log = [Invoke Gemini ''good'' (Some (Error ''rejected good'')),
                  Invoke Gemini ''bad'' (Some (Error ''rejected bad'')),
                  Console ''Title generation failed, using default'']\<rparr>)"
    by (simp add: emit_def)
  show ?thesis
    using a b c d e f g h three_keys_gemini two_keys_pool i1 i2 i j title_failover_run
      title_rejected_run k' by blast
qed


text \<open>
  C8. On the OpenRouter path of streamChat, with the cursor at some key: (1) when the
  request with that key ends with status 401 and there is more than one key, the next
  request is made with the next key; (2) at most as many requests are made as there
  are keys, the j-th of them with the key j places after the cursor, so no place of the
  key list is used twice; (3) when the first request ends with status 404 the error
  "Model '...' not found on provider. Check availability." is thrown after that one
  request, the cursor unchanged; (4) when it ends with an error of any other status
  but 401, that error is thrown after that one request, the cursor unchanged; (5) an
  error thrown to the caller is the error of the last request made; (6) when every
  request ends with status 401, every key is used once and the call throws; (7) the
  call is the loop started at attempt 0 with no last error. At every state of the loop
  (any attempt \<open>i\<close> with keys left, any last error, any turn \<open>s\<close>): (8) a request that
  ends with status 401 is recorded, the cursor is rotated and the loop goes on with
  attempt \<open>i + 1\<close> and that error as the last error; (9) when another attempt is left,
  the request after it is made with the next key; (10) a request that ends with status
  404 ends the loop with the "Model '...' not found" error, the service unchanged and no
  further request; (11) a request that ends with any other error but 401 ends the loop
  with that error, the service unchanged and no further request; (12) a request whose
  stream completes ends the loop normally; (13) when no attempt is left the last error
  is thrown. Over the whole call: (14) every request that is followed by another one
  ended with status 401; (15) the service ends rotated once for each request that
  ended with status 401, and not otherwise.
\<close>

theorem streamChat_key_rotation:
  assumes "openrouter_path mode t"
  shows
   "(create (client_at (service t) 0) (modelToUse mode) (net t) = ((chunks, Some err), w')
       \<and> status err = Some 401 \<and> 1 < length (openRouterKeys (service t))
     \<longrightarrow> (\<exists>x rest. new_requests t (snd (streamChat create mode t))
            = (client_at (service t) 0, modelToUse mode, Some err)
              # (client_at (service t) 1, modelToUse mode, x) # rest))
    \<and> length (new_requests t (snd (streamChat create mode t))) \<le> length (openRouterKeys (service t))
    \<and> map fst (new_requests t (snd (streamChat create mode t)))
        = map (client_at (service t)) [0..<length (new_requests t (snd (streamChat create mode t)))]
    \<and> (create (client_at (service t) 0) (modelToUse mode) (net t) = ((chunks, Some err), w')
       \<and> status err = Some 404
     \<longrightarrow> streamChat create mode t
          = (Inl (Error (''Model '' @ [CHR 0x27] @ modelToUse mode @ [CHR 0x27]
                          @ '' not found on provider. Check availability.'')),
             t\<lparr>net := w', yielded := yielded t @ fragments chunks,
               opened := opened t @ [(client_at (service t) 0, modelToUse mode,
                 Some (Error (''Model '' @ [CHR 0x27] @ modelToUse mode @ [CHR 0x27]
                          @ '' not found on provider. Check availability.'')))]\<rparr>))
    \<and> (create (client_at (service t) 0) (modelToUse mode) (net t) = ((chunks, Some err), w')
       \<and> status err \<noteq> Some 401 \<and> status err \<noteq> Some 404
     \<longrightarrow> streamChat create mode t
          = (Inl err,
             t\<lparr>net := w', yielded := yielded t @ fragments chunks,
               opened := opened t @ [(client_at (service t) 0, modelToUse mode, Some err)]\<rparr>))
    \<and> (\<forall>e. fst (streamChat create mode t) = Inl e
          \<longrightarrow> new_requests t (snd (streamChat create mode t)) \<noteq> []
            \<and> snd (snd (last (new_requests t (snd (streamChat create mode t))))) = Some e)
    \<and> ((\<forall>cl w. \<exists>x. snd (fst (create cl (modelToUse mode) w)) = Some x \<and> status x = Some 401)
     \<longrightarrow> isl (fst (streamChat create mode t))
        \<and> length (new_requests t (snd (streamChat create mode t))) = length (openRouterKeys (service t)))
    \<and> streamChat create mode t = stream_loop create (modelToUse mode) 0 None t
    \<and> (openRouterKeys (service s) \<noteq> [] \<and> i < length (openRouterKeys (service s))
       \<and> create (client_at (service s) 0) model (net s) = ((chunks2, Some err2), w2)
       \<and> status err2 = Some 401
     \<longrightarrow> stream_loop create model i le s
          = stream_loop create model (i + 1) (Some err2)
              (s\<lparr>net := w2, yielded := yielded s @ fragments chunks2,
                 opened := opened s @ [(client_at (service s) 0, model, Some err2)],
                 service := rotateOpenRouterKey (service s)\<rparr>))
    \<and> (openRouterKeys (service s) \<noteq> [] \<and> i + 1 < length (openRouterKeys (service s))
       \<and> create (client_at (service s) 0) model (net s) = ((chunks2, Some err2), w2)
       \<and> status err2 = Some 401
     \<longrightarrow> (\<exists>x rest. opened (snd (stream_loop create model i le s))
            = opened s @ (client_at (service s) 0, model, Some err2)
                # (client_at (service s) 1, model, x) # rest))
    \<and> (openRouterKeys (service s) \<noteq> [] \<and> i < length (openRouterKeys (service s))
       \<and> create (client_at (service s) 0) model (net s) = ((chunks2, Some err2), w2)
       \<and> status err2 = Some 404
     \<longrightarrow> stream_loop create model i le s
          = (Inl (Error (''Model '' @ [CHR 0x27] @ model @ [CHR 0x27]
                          @ '' not found on provider. Check availability.'')),
             s\<lparr>net := w2, yielded := yielded s @ fragments chunks2,
               opened := opened s @ [(client_at (service s) 0, model,
                 Some (Error (''Model '' @ [CHR 0x27] @ model @ [CHR 0x27]
                          @ '' not found on provider. Check availability.'')))]\<rparr>))
    \<and> (openRouterKeys (service s) \<noteq> [] \<and> i < length (openRouterKeys (service s))
       \<and> create (client_at (service s) 0) model (net s) = ((chunks2, Some err2), w2)
       \<and> status err2 \<noteq> Some 401 \<and> status err2 \<noteq> Some 404
     \<longrightarrow> stream_loop create model i le s
          = (Inl err2,
             s\<lparr>net := w2, yielded := yielded s @ fragments chunks2,
               opened := opened s @ [(client_at (service s) 0, model, Some err2)]\<rparr>))
    \<and> (openRouterKeys (service s) \<noteq> [] \<and> i < length (openRouterKeys (service s))
       \<and> create (client_at (service s) 0) model (net s) = ((chunks2, None), w2)
     \<longrightarrow> stream_loop create model i le s
          = (Inr (),
             s\<lparr>net := w2, yielded := yielded s @ fragments chunks2,
               opened := opened s @ [(client_at (service s) 0, model, None)]\<rparr>))
    \<and> (\<not> i < length (openRouterKeys (service s))
     \<longrightarrow> stream_loop create model i le s = (Inl (thrown_after_loop le), s))
    \<and> (\<forall>j. Suc j < length (new_requests t (snd (streamChat create mode t)))
          \<longrightarrow> unauthorized (new_requests t (snd (streamChat create mode t)) ! j))
    \<and> service (snd (streamChat create mode t))
        = (rotateOpenRouterKey ^^ rotations (new_requests t (snd (streamChat create mode t)))) (service t)"
proof -
  let ?model = "modelToUse mode"
  let ?n = "length (openRouterKeys (service t))"
  let ?cl = "client_at (service t) 0"
  have ne: "openRouterKeys (service t) \<noteq> []" and pos: "0 < ?n"
    using assms by (simp_all add: openrouter_path_def)
  have run: "streamChat create mode t = stream_loop create ?model 0 None t"
    using assms by (rule streamChat_openrouter)
  obtain r t' where rt: "stream_loop create ?model 0 None t = (r, t')"
    by (cases "stream_loop create ?model 0 None t")
  from stream_loop_run [OF rt ne] obtain rs where rs:
    "opened t' = opened t @ rs" "length rs \<le> ?n - 0"
    "map fst rs = map (client_at (service t)) [0..<length rs]"
    "case r of
       Inr u \<Rightarrow> rs \<noteq> [] \<and> snd (snd (last rs)) = None
     | Inl e \<Rightarrow> (if rs = [] then e = thrown_after_loop None else snd (snd (last rs)) = Some e)"
    by blast
  have nr: "new_requests t t' = rs" using rs(1) by (rule new_requests_append)
  from stream_loop_first [OF ne pos, of create ?model None] rt rs(1)
  have rs_ne: "rs \<noteq> []" by auto
  have b: "length (new_requests t (snd (streamChat create mode t))) \<le> ?n"
    "map fst (new_requests t (snd (streamChat create mode t)))
        = map (client_at (service t)) [0..<length (new_requests t (snd (streamChat create mode t)))]"
    using run rt nr rs(2,3) by simp_all
  have e: "\<forall>e. fst (streamChat create mode t) = Inl e
          \<longrightarrow> new_requests t (snd (streamChat create mode t)) \<noteq> []
            \<and> snd (snd (last (new_requests t (snd (streamChat create mode t))))) = Some e"
    using run rt nr rs(4) rs_ne by auto
  have f: "isl (fst (streamChat create mode t))
        \<and> length (new_requests t (snd (streamChat create mode t))) = ?n"
    if "\<forall>cl w. \<exists>x. snd (fst (create cl ?model w)) = Some x \<and> status x = Some 401"
    using stream_loop_all_unauthorized [of create ?model t 0 None, OF that ne] run by simp
  have a: "\<exists>x rest. new_requests t (snd (streamChat create mode t))
            = (?cl, ?model, Some err) # (client_at (service t) 1, ?model, x) # rest"
    if c: "create ?cl ?model (net t) = ((chunks, Some err), w')" and u: "status err = Some 401"
      and many: "1 < ?n"
  proof -
    have same: "rethrown ?model err = err" using u by (simp add: rethrown_def)
    let ?t1 = "t\<lparr>net := w', yielded := yielded t @ fragments chunks,
                  opened := opened t @ [(?cl, ?model, Some err)]\<rparr>"
    let ?t2 = "?t1\<lparr>service := rotateOpenRouterKey (service t)\<rparr>"
    have step: "stream_loop create ?model 0 None t = stream_loop create ?model 1 (Some err) ?t2"
      using stream_loop_step [of t 0 create ?model chunks "Some err" w' None, OF ne pos c] u same
      by (simp add: Let_def)
    have ne2: "openRouterKeys (service ?t2) \<noteq> []" and many2: "1 < length (openRouterKeys (service ?t2))"
      using ne many by (simp_all add: rotateOpenRouterKey_def)
    from stream_loop_first [OF ne2 many2, of create ?model "Some err"]
    obtain x rest where "opened (snd (stream_loop create ?model 1 (Some err) ?t2))
        = opened ?t2 @ (client_at (service ?t2) 0, ?model, x) # rest" by blast
    then have "opened (snd (streamChat create mode t))
        = opened t @ ((?cl, ?model, Some err) # (client_at (service t) 1, ?model, x) # rest)"
      using run step by (simp add: client_at_rotate)
    then show ?thesis using new_requests_append by blast
  qed
  have c: "streamChat create mode t
          = (Inl (Error (''Model '' @ [CHR 0x27] @ ?model @ [CHR 0x27]
                          @ '' not found on provider. Check availability.'')),
             t\<lparr>net := w', yielded := yielded t @ fragments chunks,
               opened := opened t @ [(?cl, ?model,
                 Some (Error (''Model '' @ [CHR 0x27] @ ?model @ [CHR 0x27]
                          @ '' not found on provider. Check availability.'')))]\<rparr>)"
    if "create ?cl ?model (net t) = ((chunks, Some err), w')" and "status err = Some 404"
    using stream_loop_step [of t 0 create ?model chunks "Some err" w' None, OF ne pos that(1)] that(2) run
    by (simp add: Let_def rethrown_def Error_def)
  have d: "streamChat create mode t
          = (Inl err,
             t\<lparr>net := w', yielded := yielded t @ fragments chunks,
               opened := opened t @ [(?cl, ?model, Some err)]\<rparr>)"
    if "create ?cl ?model (net t) = ((chunks, Some err), w')"
      and "status err \<noteq> Some 401" and "status err \<noteq> Some 404"
    using stream_loop_step [of t 0 create ?model chunks "Some err" w' None, OF ne pos that(1)] that(2,3) run
    by (simp add: Let_def rethrown_def)
  from stream_loop_rotations [OF rt ne] obtain rs' where rs':
    "opened t' = opened t @ rs'" "\<forall>j. Suc j < length rs' \<longrightarrow> unauthorized (rs' ! j)"
    "service t' = (rotateOpenRouterKey ^^ rotations rs') (service t)"
    by blast
  have same_rs: "rs' = rs" using rs(1) rs'(1) by simp
  have g: "\<forall>j. Suc j < length (new_requests t (snd (streamChat create mode t)))
          \<longrightarrow> unauthorized (new_requests t (snd (streamChat create mode t)) ! j)"
    "service (snd (streamChat create mode t))
        = (rotateOpenRouterKey ^^ rotations (new_requests t (snd (streamChat create mode t)))) (service t)"
    using run rt nr rs'(2,3) same_rs by simp_all
  have s401: "stream_loop create model i le s
          = stream_loop create model (i + 1) (Some err2)
              (s\<lparr>net := w2, yielded := yielded s @ fragments chunks2,
                 opened := opened s @ [(client_at (service s) 0, model, Some err2)],
                 service := rotateOpenRouterKey (service s)\<rparr>)"
    if "openRouterKeys (service s) \<noteq> []" and "i < length (openRouterKeys (service s))"
      and "create (client_at (service s) 0) model (net s) = ((chunks2, Some err2), w2)"
      and "status err2 = Some 401"
    using stream_loop_step [of s i create model chunks2 "Some err2" w2 le, OF that(1,2,3)] that(4)
    by (simp add: Let_def rethrown_def)
  have snext: "\<exists>x rest. opened (snd (stream_loop create model i le s))
            = opened s @ (client_at (service s) 0, model, Some err2)
                # (client_at (service s) 1, model, x) # rest"
    if k: "openRouterKeys (service s) \<noteq> []" and more: "i + 1 < length (openRouterKeys (service s))"
      and c: "create (client_at (service s) 0) model (net s) = ((chunks2, Some err2), w2)"
      and u: "status err2 = Some 401"
  proof -
    let ?s2 = "s\<lparr>net := w2, yielded := yielded s @ fragments chunks2,
                 opened := opened s @ [(client_at (service s) 0, model, Some err2)],
                 service := rotateOpenRouterKey (service s)\<rparr>"
    have "i < length (openRouterKeys (service s))" using more by simp
    from s401 [OF k this c u]
    have step: "stream_loop create model i le s = stream_loop create model (i + 1) (Some err2) ?s2" .
    have ne2: "openRouterKeys (service ?s2) \<noteq> []" and more2: "i + 1 < length (openRouterKeys (service ?s2))"
      using k more by (simp_all add: rotateOpenRouterKey_def)
    from stream_loop_first [OF ne2 more2, of create model "Some err2"]
    obtain x rest where "opened (snd (stream_loop create model (i + 1) (Some err2) ?s2))
        = opened ?s2 @ (client_at (service ?s2) 0, model, x) # rest" by blast
    then have "opened (snd (stream_loop create model i le s))
        = opened s @ (client_at (service s) 0, model, Some err2)
            # (client_at (service s) 1, model, x) # rest"
      using step by (simp add: client_at_rotate)
    then show ?thesis by blast
  qed
  have s404: "stream_loop create model i le s
          = (Inl (Error (''Model '' @ [CHR 0x27] @ model @ [CHR 0x27]
                          @ '' not found on provider. Check availability.'')),
             s\<lparr>net := w2, yielded := yielded s @ fragments chunks2,
               opened := opened s @ [(client_at (service s) 0, model,
                 Some (Error (''Model '' @ [CHR 0x27] @ model @ [CHR 0x27]
                          @ '' not found on provider. Check availability.'')))]\<rparr>)"
    if "openRouterKeys (service s) \<noteq> []" and "i < length (openRouterKeys (service s))"
      and "create (client_at (service s) 0) model (net s) = ((chunks2, Some err2), w2)"
      and "status err2 = Some 404"
    using stream_loop_step [of s i create model chunks2 "Some err2" w2 le, OF that(1,2,3)] that(4)
    by (simp add: Let_def rethrown_def Error_def)
  have sother: "stream_loop create model i le s
          = (Inl err2,
             s\<lparr>net := w2, yielded := yielded s @ fragments chunks2,
               opened := opened s @ [(client_at (service s) 0, model, Some err2)]\<rparr>)"
    if "openRouterKeys (service s) \<noteq> []" and "i < length (openRouterKeys (service s))"
      and "create (client_at (service s) 0) model (net s) = ((chunks2, Some err2), w2)"
      and "status err2 \<noteq> Some 401" and "status err2 \<noteq> Some 404"
    using stream_loop_step [of s i create model chunks2 "Some err2" w2 le, OF that(1,2,3)] that(4,5)
    by (simp add: Let_def rethrown_def)
  have sdone: "stream_loop create model i le s
          = (Inr (),
             s\<lparr>net := w2, yielded := yielded s @ fragments chunks2,
               opened := opened s @ [(client_at (service s) 0, model, None)]\<rparr>)"
    if "openRouterKeys (service s) \<noteq> []" and "i < length (openRouterKeys (service s))"
      and "create (client_at (service s) 0) model (net s) = ((chunks2, None), w2)"
    using stream_loop_step [of s i create model chunks2 None w2 le, OF that(1,2,3)]
    by (simp add: Let_def)
  have sout: "stream_loop create model i le s = (Inl (thrown_after_loop le), s)"
    if "\<not> i < length (openRouterKeys (service s))"
    using that by (rule stream_loop_exhausted)
  show ?thesis
    apply (intro conjI)
    subgoal using a by blast
    subgoal by (rule b(1))
    subgoal by (rule b(2))
    subgoal using c by blast
    subgoal using d by blast
    subgoal by (rule e)
    subgoal using f by blast
    subgoal by (rule run)
    subgoal using s401 by blast
    subgoal using snext by blast
    subgoal using s404 by blast
    subgoal using sother by blast
    subgoal using sdone by blast
    subgoal using sout by blast
    subgoal by (rule g(1))
    subgoal by (rule g(2))
    done
qed


theorem streamChat_key_rotation_witness:
  "openrouter_path Pro fresh_turn
   \<and> respond (\<lambda>k. if k = ''k3'' then None else Some 401) (client_at (service fresh_turn) 0)
        (modelToUse Pro) (net fresh_turn) = (([], Some (refused 401)), 1)
   \<and> status (refused 401) = Some 401 \<and> 1 < length (openRouterKeys (service fresh_turn))
   \<and> (\<exists>x rest. new_requests fresh_turn
          (snd (streamChat (respond (\<lambda>k. if k = ''k3'' then None else Some 401)) Pro fresh_turn))
        = (OpenRouterClient ''k1'', ''openai/gpt-oss-120b'', Some (refused 401))
          # (OpenRouterClient ''k2'', ''openai/gpt-oss-120b'', x) # rest)
   \<and> length (new_requests fresh_turn
          (snd (streamChat (respond (\<lambda>k. if k = ''k3'' then None else Some 401)) Pro fresh_turn)))
        \<le> length (openRouterKeys (service fresh_turn))
   \<and> respond (\<lambda>k. Some 404) (client_at (service fresh_turn) 0) (modelToUse Pro) (net fresh_turn)
        = (([], Some (refused 404)), 1)
   \<and> status (refused 404) = Some 404
   \<and> streamChat (respond (\<lambda>k. Some 404)) Pro fresh_turn
        = (Inl (Error (''Model '' @ [CHR 0x27] @ ''openai/gpt-oss-120b'' @ [CHR 0x27]
                          @ '' not found on provider. Check availability.'')),
           fresh_turn\<lparr>net := 1, yielded := yielded fresh_turn @ fragments [],
             opened := opened fresh_turn @ [(OpenRouterClient ''k1'', ''openai/gpt-oss-120b'',
               Some (Error (''Model '' @ [CHR 0x27] @ ''openai/gpt-oss-120b'' @ [CHR 0x27]
                          @ '' not found on provider. Check availability.'')))]\<rparr>)
   \<and> respond (\<lambda>k. Some 500) (client_at (service fresh_turn) 0) (modelToUse Pro) (net fresh_turn)
        = (([], Some (refused 500)), 1)
   \<and> status (refused 500) \<noteq> Some 401 \<and> status (refused 500) \<noteq> Some 404
   \<and> streamChat (respond (\<lambda>k. Some 500)) Pro fresh_turn
        = (Inl (refused 500),
           fresh_turn\<lparr>net := 1, yielded := yielded fresh_turn @ fragments [],
             opened := opened fresh_turn @ [(OpenRouterClient ''k1'', ''openai/gpt-oss-120b'',
               Some (refused 500))]\<rparr>)
   \<and> (\<forall>cl w. \<exists>x. snd (fst (respond (\<lambda>k. Some 401) cl (modelToUse Pro) w)) = Some x \<and> status x = Some 401)
   \<and> isl (fst (streamChat (respond (\<lambda>k. Some 401)) Pro fresh_turn))
   \<and> length (new_requests fresh_turn (snd (streamChat (respond (\<lambda>k. Some 401)) Pro fresh_turn)))
        = length (openRouterKeys (service fresh_turn))
   \<and> fst (streamChat (respond (\<lambda>k. Some 401)) Pro fresh_turn) = Inl (refused 401)
   \<and> snd (snd (last (new_requests fresh_turn (snd (streamChat (respond (\<lambda>k. Some 401)) Pro fresh_turn)))))
        = Some (refused 401)
   \<and> streamChat (respond (\<lambda>k. if k = ''k1'' then Some 401 else Some 404)) Pro fresh_turn = stream_loop (respond (\<lambda>k. if k = ''k1'' then Some 401 else Some 404)) ''openai/gpt-oss-120b'' 0 None fresh_turn
   \<and> openRouterKeys (service fresh_turn) \<noteq> [] \<and> 0 < length (openRouterKeys (service fresh_turn))
   \<and> (respond (\<lambda>k. if k = ''k1'' then Some 401 else Some 404)) (client_at (service fresh_turn) 0) ''openai/gpt-oss-120b'' (net fresh_turn) = (([], Some (refused 401)), 1)
   \<and> stream_loop (respond (\<lambda>k. if k = ''k1'' then Some 401 else Some 404)) ''openai/gpt-oss-120b'' 0 None fresh_turn = stream_loop (respond (\<lambda>k. if k = ''k1'' then Some 401 else Some 404)) ''openai/gpt-oss-120b'' 1 (Some (refused 401)) second_turn
   \<and> openRouterKeys (service second_turn) \<noteq> [] \<and> 1 < length (openRouterKeys (service second_turn))
   \<and> (respond (\<lambda>k. if k = ''k1'' then Some 401 else Some 404)) (client_at (service second_turn) 0) ''openai/gpt-oss-120b'' (net second_turn) = (([], Some (refused 404)), 2)
   \<and> stream_loop (respond (\<lambda>k. if k = ''k1'' then Some 401 else Some 404)) ''openai/gpt-oss-120b'' 1 (Some (refused 401)) second_turn
        = (Inl (Error (''Model '' @ [CHR 0x27] @ ''openai/gpt-oss-120b'' @ [CHR 0x27]
                          @ '' not found on provider. Check availability.'')),
           second_turn\<lparr>net := 2, yielded := yielded second_turn @ fragments [],
             opened := opened second_turn @ [(OpenRouterClient ''k2'', ''openai/gpt-oss-120b'',
               Some (Error (''Model '' @ [CHR 0x27] @ ''openai/gpt-oss-120b'' @ [CHR 0x27]
                          @ '' not found on provider. Check availability.'')))]\<rparr>)
   \<and> streamChat (respond (\<lambda>k. if k = ''k1'' then Some 401 else Some 404)) Pro fresh_turn
        = (Inl (Error (''Model '' @ [CHR 0x27] @ ''openai/gpt-oss-120b'' @ [CHR 0x27]
                          @ '' not found on provider. Check availability.'')),
           \<lparr>service = \<lparr>groqClient = None, openRouterKeys = [''k1'', ''k2'', ''k3''],
                        currentOpenRouterIndex = 1\<rparr>,
            net = 2, yielded = [],
            opened = [(OpenRouterClient ''k1'', ''openai/gpt-oss-120b'', Some (refused 401)),
                      (OpenRouterClient ''k2'', ''openai/gpt-oss-120b'',
                       Some (Error (''Model '' @ [CHR 0x27] @ ''openai/gpt-oss-120b'' @ [CHR 0x27]
                          @ '' not found on provider. Check availability.'')))]\<rparr>)
   \<and> rotations (new_requests fresh_turn (snd (streamChat (respond (\<lambda>k. if k = ''k1'' then Some 401 else Some 404)) Pro fresh_turn))) = 1
   \<and> service (snd (streamChat (respond (\<lambda>k. if k = ''k1'' then Some 401 else Some 404)) Pro fresh_turn)) = rotateOpenRouterKey (service fresh_turn)
   \<and> (respond (\<lambda>k. if k = ''k1'' then Some 401 else Some 500)) (client_at (service second_turn) 0) ''openai/gpt-oss-120b'' (net second_turn) = (([], Some (refused 500)), 2)
   \<and> stream_loop (respond (\<lambda>k. if k = ''k1'' then Some 401 else Some 500)) ''openai/gpt-oss-120b'' 1 (Some (refused 401)) second_turn
        = (Inl (refused 500),
           second_turn\<lparr>net := 2, yielded := yielded second_turn @ fragments [],
             opened := opened second_turn @ [(OpenRouterClient ''k2'', ''openai/gpt-oss-120b'', Some (refused 500))]\<rparr>)
   \<and> (respond (\<lambda>k. if k = ''k1'' then Some 401 else None)) (client_at (service second_turn) 0) ''openai/gpt-oss-120b'' (net second_turn)
        = (([Some ''Hel'', None, Some ''lo''], None), 2)
   \<and> stream_loop (respond (\<lambda>k. if k = ''k1'' then Some 401 else None)) ''openai/gpt-oss-120b'' 1 (Some (refused 401)) second_turn
        = (Inr (),
           second_turn\<lparr>net := 2, yielded := yielded second_turn @ fragments [Some ''Hel'', None, Some ''lo''],
             opened := opened second_turn @ [(OpenRouterClient ''k2'', ''openai/gpt-oss-120b'', None)]\<rparr>)
   \<and> 1 + 1 < length (openRouterKeys (service second_turn))
   \<and> (respond (\<lambda>k. Some 401)) (client_at (service second_turn) 0) ''openai/gpt-oss-120b'' (net second_turn) = (([], Some (refused 401)), 2)
   \<and> (\<exists>x rest. opened (snd (stream_loop (respond (\<lambda>k. Some 401)) ''openai/gpt-oss-120b'' 1 (Some (refused 401)) second_turn))
        = opened second_turn @ (OpenRouterClient ''k2'', ''openai/gpt-oss-120b'', Some (refused 401))
            # (OpenRouterClient ''k3'', ''openai/gpt-oss-120b'', x) # rest)
   \<and> \<not> 3 < length (openRouterKeys (service second_turn))
   \<and> stream_loop (respond (\<lambda>k. Some 401)) ''openai/gpt-oss-120b'' 3 (Some (refused 401)) second_turn = (Inl (refused 401), second_turn)
   \<and> Suc 0 < length (new_requests fresh_turn (snd (streamChat (respond (\<lambda>k. Some 401)) Pro fresh_turn)))
   \<and> unauthorized (new_requests fresh_turn (snd (streamChat (respond (\<lambda>k. Some 401)) Pro fresh_turn)) ! 0)"
proof -
  let ?flaky = "respond (\<lambda>k. if k = ''k3'' then None else Some 401)"
  let ?B = "(respond (\<lambda>k. if k = ''k1'' then Some 401 else Some 404))"
  let ?C = "(respond (\<lambda>k. if k = ''k1'' then Some 401 else Some 500))"
  let ?D = "(respond (\<lambda>k. if k = ''k1'' then Some 401 else None))"
  let ?L = "(respond (\<lambda>k. Some 401))"
  let ?M = "''openai/gpt-oss-120b''"
  let ?gone = "Error (''Model '' @ [CHR 0x27] @ ''openai/gpt-oss-120b'' @ [CHR 0x27]
                          @ '' not found on provider. Check availability.'')"
  note rotate = streamChat_key_rotation [OF fresh_path, where create = ?flaky and chunks = "[]"
      and err = "refused 401" and w' = 1, THEN conjunct1]
  note bounded = streamChat_key_rotation [OF fresh_path, where create = ?flaky, THEN conjunct2, THEN conjunct1]
  note missing = streamChat_key_rotation [OF fresh_path, where create = "respond (\<lambda>k. Some 404)"
      and chunks = "[]" and err = "refused 404" and w' = 1, THEN conjunct2, THEN conjunct2, THEN conjunct2, THEN conjunct1]
  note broken = streamChat_key_rotation [OF fresh_path, where create = "respond (\<lambda>k. Some 500)"
      and chunks = "[]" and err = "refused 500" and w' = 1, THEN conjunct2, THEN conjunct2, THEN conjunct2, THEN conjunct2, THEN conjunct1]
  note last_thrown = streamChat_key_rotation [OF fresh_path, where create = ?L, THEN conjunct2, THEN conjunct2, THEN conjunct2, THEN conjunct2, THEN conjunct2, THEN conjunct1]
  note locked = streamChat_key_rotation [OF fresh_path, where create = ?L, THEN conjunct2, THEN conjunct2, THEN conjunct2, THEN conjunct2, THEN conjunct2, THEN conjunct2, THEN conjunct1]
  note entry = streamChat_key_rotation [OF fresh_path, where create = ?B, THEN conjunct2, THEN conjunct2, THEN conjunct2, THEN conjunct2, THEN conjunct2, THEN conjunct2, THEN conjunct2, THEN conjunct1]
  note first = streamChat_key_rotation [OF fresh_path, where create = ?B and s = fresh_turn and i = 0
      and le = None and model = ?M and ?chunks2.0 = "[]" and ?err2.0 = "refused 401" and ?w2.0 = 1, THEN conjunct2, THEN conjunct2, THEN conjunct2, THEN conjunct2, THEN conjunct2, THEN conjunct2, THEN conjunct2, THEN conjunct2, THEN conjunct1]
  note again = streamChat_key_rotation [OF fresh_path, where create = ?L and s = second_turn and i = 1
      and le = "Some (refused 401)" and model = ?M and ?chunks2.0 = "[]" and ?err2.0 = "refused 401"
      and ?w2.0 = 2, THEN conjunct2, THEN conjunct2, THEN conjunct2, THEN conjunct2, THEN conjunct2, THEN conjunct2, THEN conjunct2, THEN conjunct2, THEN conjunct2, THEN conjunct1]
  note second = streamChat_key_rotation [OF fresh_path, where create = ?B and s = second_turn and i = 1
      and le = "Some (refused 401)" and model = ?M and ?chunks2.0 = "[]" and ?err2.0 = "refused 404"
      and ?w2.0 = 2, THEN conjunct2, THEN conjunct2, THEN conjunct2, THEN conjunct2, THEN conjunct2, THEN conjunct2, THEN conjunct2, THEN conjunct2, THEN conjunct2, THEN conjunct2, THEN conjunct1]
  note other = streamChat_key_rotation [OF fresh_path, where create = ?C and s = second_turn and i = 1
      and le = "Some (refused 401)" and model = ?M and ?chunks2.0 = "[]" and ?err2.0 = "refused 500"
      and ?w2.0 = 2, THEN conjunct2, THEN conjunct2, THEN conjunct2, THEN conjunct2, THEN conjunct2, THEN conjunct2, THEN conjunct2, THEN conjunct2, THEN conjunct2, THEN conjunct2, THEN conjunct2, THEN conjunct1]
  note completes = streamChat_key_rotation [OF fresh_path, where create = ?D and s = second_turn and i = 1
      and le = "Some (refused 401)" and model = ?M and ?chunks2.0 = "[Some ''Hel'', None, Some ''lo'']"
      and ?w2.0 = 2, THEN conjunct2, THEN conjunct2, THEN conjunct2, THEN conjunct2, THEN conjunct2, THEN conjunct2, THEN conjunct2, THEN conjunct2, THEN conjunct2, THEN conjunct2, THEN conjunct2, THEN conjunct2, THEN conjunct1]
  note out = streamChat_key_rotation [OF fresh_path, where create = ?L and s = second_turn and i = 3
      and le = "Some (refused 401)" and model = ?M, THEN conjunct2, THEN conjunct2, THEN conjunct2, THEN conjunct2, THEN conjunct2, THEN conjunct2, THEN conjunct2, THEN conjunct2, THEN conjunct2, THEN conjunct2, THEN conjunct2, THEN conjunct2, THEN conjunct2, THEN conjunct1]
  note before_last = streamChat_key_rotation [OF fresh_path, where create = ?L, THEN conjunct2, THEN conjunct2, THEN conjunct2, THEN conjunct2, THEN conjunct2, THEN conjunct2, THEN conjunct2, THEN conjunct2, THEN conjunct2, THEN conjunct2, THEN conjunct2, THEN conjunct2, THEN conjunct2, THEN conjunct2, THEN conjunct1]
  note cursor = streamChat_key_rotation [OF fresh_path, where create = ?B, THEN conjunct2, THEN conjunct2, THEN conjunct2, THEN conjunct2, THEN conjunct2, THEN conjunct2, THEN conjunct2, THEN conjunct2, THEN conjunct2, THEN conjunct2, THEN conjunct2, THEN conjunct2, THEN conjunct2, THEN conjunct2, THEN conjunct2]
  have second_clients: "client_at (service second_turn) 0 = OpenRouterClient ''k2''"
    "client_at (service second_turn) 1 = OpenRouterClient ''k3''"
    by (simp_all add: client_at_def second_turn_def)
  have h1: "?flaky (client_at (service fresh_turn) 0) (modelToUse Pro) (net fresh_turn)
      = (([], Some (refused 401)), 1)"
    unfolding fresh_clients by (simp add: respond_def key_of_def refused_def fresh_turn_def)
  have h2: "status (refused 401) = Some 401" "1 < length (openRouterKeys (service fresh_turn))"
    by (simp_all add: refused_def fresh_service)
  have c1: "\<exists>x rest. new_requests fresh_turn (snd (streamChat ?flaky Pro fresh_turn))
        = (OpenRouterClient ''k1'', ?M, Some (refused 401))
          # (OpenRouterClient ''k2'', ?M, x) # rest"
  proof -
    have "\<exists>x rest. new_requests fresh_turn (snd (streamChat ?flaky Pro fresh_turn))
        = (client_at (service fresh_turn) 0, modelToUse Pro, Some (refused 401))
          # (client_at (service fresh_turn) 1, modelToUse Pro, x) # rest"
      using rotate h1 h2 by blast
    then show ?thesis by (simp only: fresh_clients model_pro)
  qed
  have c2: "length (new_requests fresh_turn (snd (streamChat ?flaky Pro fresh_turn)))
        \<le> length (openRouterKeys (service fresh_turn))"
    by (rule bounded)
  have h3: "respond (\<lambda>k. Some 404) (client_at (service fresh_turn) 0) (modelToUse Pro) (net fresh_turn)
        = (([], Some (refused 404)), 1)" "status (refused 404) = Some 404"
    by (simp_all add: respond_def refused_def fresh_turn_def)
  have c3: "streamChat (respond (\<lambda>k. Some 404)) Pro fresh_turn
        = (Inl ?gone,
           fresh_turn\<lparr>net := 1, yielded := yielded fresh_turn @ fragments [],
             opened := opened fresh_turn @ [(OpenRouterClient ''k1'', ?M, Some ?gone)]\<rparr>)"
  proof -
    have "streamChat (respond (\<lambda>k. Some 404)) Pro fresh_turn
          = (Inl (Error (''Model '' @ [CHR 0x27] @ modelToUse Pro @ [CHR 0x27]
                          @ '' not found on provider. Check availability.'')),
             fresh_turn\<lparr>net := 1, yielded := yielded fresh_turn @ fragments [],
               opened := opened fresh_turn @ [(client_at (service fresh_turn) 0, modelToUse Pro,
                 Some (Error (''Model '' @ [CHR 0x27] @ modelToUse Pro @ [CHR 0x27]
                          @ '' not found on provider. Check availability.'')))]\<rparr>)"
      using missing h3 by blast
    then show ?thesis by (simp only: fresh_clients model_pro)
  qed
  have h4: "respond (\<lambda>k. Some 500) (client_at (service fresh_turn) 0) (modelToUse Pro) (net fresh_turn)
        = (([], Some (refused 500)), 1)"
    "status (refused 500) \<noteq> Some 401" "status (refused 500) \<noteq> Some 404"
    by (simp_all add: respond_def refused_def fresh_turn_def)
  have c4: "streamChat (respond (\<lambda>k. Some 500)) Pro fresh_turn
        = (Inl (refused 500),
           fresh_turn\<lparr>net := 1, yielded := yielded fresh_turn @ fragments [],
             opened := opened fresh_turn @ [(OpenRouterClient ''k1'', ?M, Some (refused 500))]\<rparr>)"
  proof -
    have "streamChat (respond (\<lambda>k. Some 500)) Pro fresh_turn
          = (Inl (refused 500),
             fresh_turn\<lparr>net := 1, yielded := yielded fresh_turn @ fragments [],
               opened := opened fresh_turn @ [(client_at (service fresh_turn) 0, modelToUse Pro,
                 Some (refused 500))]\<rparr>)"
      using broken h4 by blast
    then show ?thesis by (simp only: fresh_clients model_pro)
  qed
  have h5: "\<forall>cl w. \<exists>x. snd (fst (?L cl (modelToUse Pro) w)) = Some x \<and> status x = Some 401"
    by (simp add: respond_def refused_def)
  have c5: "isl (fst (streamChat ?L Pro fresh_turn))"
    "length (new_requests fresh_turn (snd (streamChat ?L Pro fresh_turn)))
        = length (openRouterKeys (service fresh_turn))"
    using locked h5 by blast+
  have h6: "fst (streamChat ?L Pro fresh_turn) = Inl (refused 401)"
    using all_unauthorized_run by simp
  have c6: "snd (snd (last (new_requests fresh_turn (snd (streamChat ?L Pro fresh_turn)))))
      = Some (refused 401)"
    using last_thrown h6 by blast
  have n1: "streamChat ?B Pro fresh_turn = stream_loop ?B ?M 0 None fresh_turn"
    using entry by (simp only: model_pro)
  have k1: "openRouterKeys (service fresh_turn) \<noteq> []" "0 < length (openRouterKeys (service fresh_turn))"
    by (simp_all add: fresh_service)
  have r1: "?B (client_at (service fresh_turn) 0) ?M (net fresh_turn) = (([], Some (refused 401)), 1)"
    unfolding fresh_clients by (simp add: respond_def key_of_def fresh_turn_def)
  have after: "fresh_turn\<lparr>net := 1, yielded := yielded fresh_turn @ fragments [],
      opened := opened fresh_turn @ [(client_at (service fresh_turn) 0, ?M, Some (refused 401))],
      service := rotateOpenRouterKey (service fresh_turn)\<rparr> = second_turn"
    unfolding fresh_clients
    by (simp add: fresh_turn_def second_turn_def new_ChatService_def trim_def is_ws_def rotateOpenRouterKey_def
        fragments_def)
  have n2: "stream_loop ?B ?M 0 None fresh_turn = stream_loop ?B ?M 1 (Some (refused 401)) second_turn"
  proof -
    have "stream_loop ?B ?M 0 None fresh_turn
          = stream_loop ?B ?M (0 + 1) (Some (refused 401))
              (fresh_turn\<lparr>net := 1, yielded := yielded fresh_turn @ fragments [],
                 opened := opened fresh_turn @ [(client_at (service fresh_turn) 0, ?M, Some (refused 401))],
                 service := rotateOpenRouterKey (service fresh_turn)\<rparr>)"
      using first k1 r1 h2(1) by blast
    then show ?thesis unfolding after by simp
  qed
  have k2: "openRouterKeys (service second_turn) \<noteq> []" "1 < length (openRouterKeys (service second_turn))"
    "1 + 1 < length (openRouterKeys (service second_turn))"
    "\<not> 3 < length (openRouterKeys (service second_turn))"
    by (simp_all add: second_turn_def)
  have r2: "?B (client_at (service second_turn) 0) ?M (net second_turn) = (([], Some (refused 404)), 2)"
    unfolding second_clients by (simp add: respond_def key_of_def second_turn_def)
  have n3: "stream_loop ?B ?M 1 (Some (refused 401)) second_turn
        = (Inl ?gone,
           second_turn\<lparr>net := 2, yielded := yielded second_turn @ fragments [],
             opened := opened second_turn @ [(OpenRouterClient ''k2'', ?M, Some ?gone)]\<rparr>)"
  proof -
    have "stream_loop ?B ?M 1 (Some (refused 401)) second_turn
        = (Inl ?gone,
           second_turn\<lparr>net := 2, yielded := yielded second_turn @ fragments [],
             opened := opened second_turn @ [(client_at (service second_turn) 0, ?M, Some ?gone)]\<rparr>)"
      using second k2(1,2) r2 h3(2) by blast
    then show ?thesis by (simp only: second_clients)
  qed
  have n4: "streamChat ?B Pro fresh_turn
        = (Inl ?gone,
           \<lparr>service = \<lparr>groqClient = None, openRouterKeys = [''k1'', ''k2'', ''k3''],
                        currentOpenRouterIndex = 1\<rparr>,
            net = 2, yielded = [],
            opened = [(OpenRouterClient ''k1'', ?M, Some (refused 401)),
                      (OpenRouterClient ''k2'', ?M, Some ?gone)]\<rparr>)"
    unfolding n1 n2 n3 by (simp add: second_turn_def fragments_def)
  have n5: "rotations (new_requests fresh_turn (snd (streamChat ?B Pro fresh_turn))) = 1"
    unfolding n4 by (simp add: rotations_def unauthorized_def new_requests_def fresh_turn_def refused_def
        Error_def)
  have n6: "service (snd (streamChat ?B Pro fresh_turn)) = rotateOpenRouterKey (service fresh_turn)"
    using cursor unfolding n5 by simp
  have r3: "?C (client_at (service second_turn) 0) ?M (net second_turn) = (([], Some (refused 500)), 2)"
    unfolding second_clients by (simp add: respond_def key_of_def second_turn_def)
  have n7: "stream_loop ?C ?M 1 (Some (refused 401)) second_turn
        = (Inl (refused 500),
           second_turn\<lparr>net := 2, yielded := yielded second_turn @ fragments [],
             opened := opened second_turn @ [(OpenRouterClient ''k2'', ?M, Some (refused 500))]\<rparr>)"
  proof -
    have "stream_loop ?C ?M 1 (Some (refused 401)) second_turn
        = (Inl (refused 500),
           second_turn\<lparr>net := 2, yielded := yielded second_turn @ fragments [],
             opened := opened second_turn @ [(client_at (service second_turn) 0, ?M, Some (refused 500))]\<rparr>)"
      using other k2(1,2) r3 h4(2,3) by blast
    then show ?thesis by (simp only: second_clients)
  qed
  have r4: "?D (client_at (service second_turn) 0) ?M (net second_turn)
        = (([Some ''Hel'', None, Some ''lo''], None), 2)"
    unfolding second_clients by (simp add: respond_def key_of_def second_turn_def)
  have n8: "stream_loop ?D ?M 1 (Some (refused 401)) second_turn
        = (Inr (),
           second_turn\<lparr>net := 2, yielded := yielded second_turn @ fragments [Some ''Hel'', None, Some ''lo''],
             opened := opened second_turn @ [(OpenRouterClient ''k2'', ?M, None)]\<rparr>)"
  proof -
    have "stream_loop ?D ?M 1 (Some (refused 401)) second_turn
        = (Inr (),
           second_turn\<lparr>net := 2, yielded := yielded second_turn @ fragments [Some ''Hel'', None, Some ''lo''],
             opened := opened second_turn @ [(client_at (service second_turn) 0, ?M, None)]\<rparr>)"
      using completes k2(1,2) r4 by blast
    then show ?thesis by (simp only: second_clients)
  qed
  have r5: "?L (client_at (service second_turn) 0) ?M (net second_turn) = (([], Some (refused 401)), 2)"
    unfolding second_clients by (simp add: respond_def key_of_def second_turn_def)
  have n9: "\<exists>x rest. opened (snd (stream_loop ?L ?M 1 (Some (refused 401)) second_turn))
        = opened second_turn @ (OpenRouterClient ''k2'', ?M, Some (refused 401))
            # (OpenRouterClient ''k3'', ?M, x) # rest"
  proof -
    have "\<exists>x rest. opened (snd (stream_loop ?L ?M 1 (Some (refused 401)) second_turn))
        = opened second_turn @ (client_at (service second_turn) 0, ?M, Some (refused 401))
            # (client_at (service second_turn) 1, ?M, x) # rest"
      using again k2(1,3) r5 h2(1) by blast
    then show ?thesis by (simp only: second_clients)
  qed
  have n10: "stream_loop ?L ?M 3 (Some (refused 401)) second_turn = (Inl (refused 401), second_turn)"
  proof -
    have "stream_loop ?L ?M 3 (Some (refused 401)) second_turn
        = (Inl (thrown_after_loop (Some (refused 401))), second_turn)"
      using out k2(4) by blast
    then show ?thesis by (simp add: thrown_after_loop_def)
  qed
  have n11: "Suc 0 < length (new_requests fresh_turn (snd (streamChat ?L Pro fresh_turn)))"
    using c5(2) by (simp add: fresh_service)
  have n12: "unauthorized (new_requests fresh_turn (snd (streamChat ?L Pro fresh_turn)) ! 0)"
    using before_last n11 by blast
  have old: "openrouter_path Pro fresh_turn
   \<and> respond (\<lambda>k. if k = ''k3'' then None else Some 401) (client_at (service fresh_turn) 0)
        (modelToUse Pro) (net fresh_turn) = (([], Some (refused 401)), 1)
   \<and> status (refused 401) = Some 401 \<and> 1 < length (openRouterKeys (service fresh_turn))
   \<and> (\<exists>x rest. new_requests fresh_turn
          (snd (streamChat (respond (\<lambda>k. if k = ''k3'' then None else Some 401)) Pro fresh_turn))
        = (OpenRouterClient ''k1'', ''openai/gpt-oss-120b'', Some (refused 401))
          # (OpenRouterClient ''k2'', ''openai/gpt-oss-120b'', x) # rest)
   \<and> length (new_requests fresh_turn
          (snd (streamChat (respond (\<lambda>k. if k = ''k3'' then None else Some 401)) Pro fresh_turn)))
        \<le> length (openRouterKeys (service fresh_turn))
   \<and> respond (\<lambda>k. Some 404) (client_at (service fresh_turn) 0) (modelToUse Pro) (net fresh_turn)
        = (([], Some (refused 404)), 1)
   \<and> status (refused 404) = Some 404
   \<and> streamChat (respond (\<lambda>k. Some 404)) Pro fresh_turn
        = (Inl (Error (''Model '' @ [CHR 0x27] @ ''openai/gpt-oss-120b'' @ [CHR 0x27]
                          @ '' not found on provider. Check availability.'')),
           fresh_turn\<lparr>net := 1, yielded := yielded fresh_turn @ fragments [],
             opened := opened fresh_turn @ [(OpenRouterClient ''k1'', ''openai/gpt-oss-120b'',
               Some (Error (''Model '' @ [CHR 0x27] @ ''openai/gpt-oss-120b'' @ [CHR 0x27]
                          @ '' not found on provider. Check availability.'')))]\<rparr>)
   \<and> respond (\<lambda>k. Some 500) (client_at (service fresh_turn) 0) (modelToUse Pro) (net fresh_turn)
        = (([], Some (refused 500)), 1)
   \<and> status (refused 500) \<noteq> Some 401 \<and> status (refused 500) \<noteq> Some 404
   \<and> streamChat (respond (\<lambda>k. Some 500)) Pro fresh_turn
        = (Inl (refused 500),
           fresh_turn\<lparr>net := 1, yielded := yielded fresh_turn @ fragments [],
             opened := opened fresh_turn @ [(OpenRouterClient ''k1'', ''openai/gpt-oss-120b'',
               Some (refused 500))]\<rparr>)
   \<and> (\<forall>cl w. \<exists>x. snd (fst (respond (\<lambda>k. Some 401) cl (modelToUse Pro) w)) = Some x \<and> status x = Some 401)
   \<and> isl (fst (streamChat (respond (\<lambda>k. Some 401)) Pro fresh_turn))
   \<and> length (new_requests fresh_turn (snd (streamChat (respond (\<lambda>k. Some 401)) Pro fresh_turn)))
        = length (openRouterKeys (service fresh_turn))
   \<and> fst (streamChat (respond (\<lambda>k. Some 401)) Pro fresh_turn) = Inl (refused 401)
   \<and> snd (snd (last (new_requests fresh_turn (snd (streamChat (respond (\<lambda>k. Some 401)) Pro fresh_turn)))))
        = Some (refused 401)"
    using fresh_path h1 h2 c1 c2 h3 c3 h4 c4 h5 c5 h6 c6 by blast
  show ?thesis
    using old n1 k1 r1 n2 k2 r2 n3 n4 n5 n6 r3 n7 r4 n8 r5 n9 n10 n11 n12 by blast
qed


text \<open>
  C9. startGeneration always completes, with one result for each enabled question, in
  the order of the questions: (1) there are as many results as enabled questions;
  (2) the result at position j is what processQuestion returned for question j, or the
  failure placeholder of question j when it threw; (3) the state ends as COMPLETED;
  (4) the error message reports the number of failed questions, and is absent when
  there is none; (5) changing the outcome of the invocation at one position changes
  the result at no other position.
\<close>

theorem startGeneration_batch:
  "length (refinedQuestions (startGeneration pq (Some an) a)) = length (filter q_enabled (questions an))
   \<and> (\<forall>j < length (filter q_enabled (questions an)).
         refinedQuestions (startGeneration pq (Some an) a) ! j =
           (case pq j (filter q_enabled (questions an) ! j) of
              Inr r \<Rightarrow> r
            | Inl err \<Rightarrow> failure_placeholder (filter q_enabled (questions an) ! j)))
   \<and> appState (startGeneration pq (Some an) a) = COMPLETED
   \<and> app_error (startGeneration pq (Some an) a) =
        (if 0 < length (filter (item_failed pq) (enumerate 0 (filter q_enabled (questions an))))
         then Some (show_nat (length (filter (item_failed pq) (enumerate 0 (filter q_enabled (questions an)))))
                @ '' question(s) failed to generate, but the rest are available below.'')
         else None)
   \<and> ((\<forall>k. k \<noteq> i \<longrightarrow> pq' k = pq k) \<longrightarrow>
        (\<forall>k < length (filter q_enabled (questions an)). k \<noteq> i \<longrightarrow>
           refinedQuestions (startGeneration pq' (Some an) a) ! k
             = refinedQuestions (startGeneration pq (Some an) a) ! k))"
proof -
  note run = startGeneration_results [OF refl, of pq an a]
  have len: "length (refinedQuestions (startGeneration pq (Some an) a))
      = length (filter q_enabled (questions an))"
    using run by simp
  have err: "app_error (startGeneration pq (Some an) a) =
        (if 0 < length (filter (item_failed pq) (enumerate 0 (filter q_enabled (questions an))))
         then Some (show_nat (length (filter (item_failed pq) (enumerate 0 (filter q_enabled (questions an)))))
                @ '' question(s) failed to generate, but the rest are available below.'')
         else None)"
    using run by (simp add: Let_def)
  have indep: "refinedQuestions (startGeneration pq' (Some an) a) ! k
             = refinedQuestions (startGeneration pq (Some an) a) ! k"
    if "\<forall>k. k \<noteq> i \<longrightarrow> pq' k = pq k" and "k < length (filter q_enabled (questions an))" and "k \<noteq> i"
    for k
    using that by (simp add: startGeneration_nth)
  show ?thesis using len err indep run startGeneration_nth [of _ an pq a] by blast
qed

theorem startGeneration_batch_witness:
  "length (filter q_enabled (questions five_questions)) = 5
   \<and> length (refinedQuestions (startGeneration third_fails (Some five_questions) idle)) = 5
   \<and> refinedQuestions (startGeneration third_fails (Some five_questions) idle) ! 1
       = answered (question ''2'' True)
   \<and> refinedQuestions (startGeneration third_fails (Some five_questions) idle) ! 2
       = failure_placeholder (question ''3'' True)
   \<and> refinedQuestions (startGeneration third_fails (Some five_questions) idle) ! 3
       = answered (question ''4'' True)
   \<and> refinedQuestions (startGeneration third_fails (Some five_questions) idle) ! 4
       = answered (question ''5'' True)
   \<and> appState (startGeneration third_fails (Some five_questions) idle) = COMPLETED
   \<and> app_error (startGeneration third_fails (Some five_questions) idle)
       = Some ''1 question(s) failed to generate, but the rest are available below.''
   \<and> (\<forall>k. k = 2 \<or> (\<lambda>j q. Inr (answered q)) k = third_fails k)
   \<and> refinedQuestions (startGeneration (\<lambda>j q. Inr (answered q)) (Some five_questions) idle) ! 3
       = refinedQuestions (startGeneration third_fails (Some five_questions) idle) ! 3"
proof -
  note t = startGeneration_batch [where pq = third_fails and an = five_questions and a = idle
      and pq' = "\<lambda>j q. Inr (answered q)" and i = 2]
  have n: "length (filter q_enabled (questions five_questions)) = 5" by (simp add: five_enabled)
  have same: "\<forall>k. k \<noteq> 2 \<longrightarrow> (\<lambda>j q. Inr (answered q)) k = third_fails k"
    by (auto simp: third_fails_def)
  have len: "length (refinedQuestions (startGeneration third_fails (Some five_questions) idle)) = 5"
    using t n by simp
  have nth: "refinedQuestions (startGeneration third_fails (Some five_questions) idle) ! j =
           (case third_fails j (filter q_enabled (questions five_questions) ! j) of
              Inr r \<Rightarrow> r
            | Inl err \<Rightarrow> failure_placeholder (filter q_enabled (questions five_questions) ! j))"
    if "j < 5" for j using t n that by simp
  have r1: "refinedQuestions (startGeneration third_fails (Some five_questions) idle) ! 1
       = answered (question ''2'' True)"
    using nth [of 1] by (simp add: five_enabled third_fails_def)
  have r2: "refinedQuestions (startGeneration third_fails (Some five_questions) idle) ! 2
       = failure_placeholder (question ''3'' True)"
    using nth [of 2] by (simp add: five_enabled third_fails_def)
  have r3: "refinedQuestions (startGeneration third_fails (Some five_questions) idle) ! 3
       = answered (question ''4'' True)"
    using nth [of 3] by (simp add: five_enabled third_fails_def)
  have r4: "refinedQuestions (startGeneration third_fails (Some five_questions) idle) ! 4
       = answered (question ''5'' True)"
    using nth [of 4] by (simp add: five_enabled third_fails_def)
  have st: "appState (startGeneration third_fails (Some five_questions) idle) = COMPLETED"
    using t by blast
  have fails: "length (filter (item_failed third_fails)
      (enumerate 0 (filter q_enabled (questions five_questions)))) = 1"
    by (simp add: five_enabled item_failed_def third_fails_def)
  have err: "app_error (startGeneration third_fails (Some five_questions) idle)
       = Some ''1 question(s) failed to generate, but the rest are available below.''"
    using t fails by (simp add: show_nat.simps)
  have ind: "refinedQuestions (startGeneration (\<lambda>j q. Inr (answered q)) (Some five_questions) idle) ! 3
       = refinedQuestions (startGeneration third_fails (Some five_questions) idle) ! 3"
  proof -
    have "\<forall>k < length (filter q_enabled (questions five_questions)). k \<noteq> 2 \<longrightarrow>
           refinedQuestions (startGeneration (\<lambda>j q. Inr (answered q)) (Some five_questions) idle) ! k
             = refinedQuestions (startGeneration third_fails (Some five_questions) idle) ! k"
      using t same by blast
    moreover have "(3::nat) < length (filter q_enabled (questions five_questions))" "(3::nat) \<noteq> 2"
      using n by simp_all
    ultimately show ?thesis by blast
  qed
  show ?thesis using n len r1 r2 r3 r4 st err same ind by blast
qed


end
